theory Spec2Isabelle
  imports Complex_Main "HOL-Library.AList" "HOL-Library.Multiset"
begin

section \<open>Data model\<close>

subsection \<open>Values\<close>

text \<open>
  The interpreter computes with JavaScript values: an attribute holds a number or a
  string, and a missing attribute reads as \<open>undefined\<close>. Numbers are modelled as exact
  rationals. Where JavaScript would continue with \<open>NaN\<close>, an infinity, a string
  concatenation or an irrational power, the model stops with the outcome
  \<open>Unmodelled\<close>: no theorem below speaks about such a run beyond saying that it leaves
  the model.
\<close>

datatype val = Undefined | Num rat | Str string

text \<open>JavaScript truthiness, as \<open>!expression.getAttribute("value")\<close> tests it.\<close>

fun truthy :: "val \<Rightarrow> bool" where
  "truthy Undefined = False"
| "truthy (Num x) = (x \<noteq> 0)"
| "truthy (Str s) = (s \<noteq> [])"

subsection \<open>AST nodes\<close>

text \<open>
  Modelled from the spec: the node classes (\<open>Ast.NodeType\<close>, \<open>Ast.ExpressionNode\<close>,
  \<open>Ast.Factory\<close>) are not among the sources. A node has a type tag, an ordered child
  list and a string-keyed attribute map; the factory creates a node of the given type
  with no children and no attributes. The attribute map is an association list in
  insertion order.
\<close>

datatype node_type =
    Integer | DiceSides | Dice | DiceRoll
  | Add | Subtract | Multiply | Divide | Modulo | Exponent | Negate
  | Equal | Greater | GreaterOrEqual | Less | LessOrEqual
  | Function | Group
  | Explode | Keep | Drop | Critical | Reroll | Sort

datatype node = Node (ntype: node_type) (children: "node list") (attrs: "(string \<times> val) list")

definition create :: "node_type \<Rightarrow> node" where
  "create t = Node t [] []"

definition getAttribute :: "node \<Rightarrow> string \<Rightarrow> val" where
  "getAttribute n k = (case map_of (attrs n) k of None \<Rightarrow> Undefined | Some v \<Rightarrow> v)"

definition setAttribute :: "string \<Rightarrow> val \<Rightarrow> node \<Rightarrow> node" where
  "setAttribute k v n = Node (ntype n) (children n) (AList.update k v (attrs n))"

definition getChildCount :: "node \<Rightarrow> nat" where
  "getChildCount n = length (children n)"

definition getChild :: "node \<Rightarrow> nat \<Rightarrow> node" where
  "getChild n i = children n ! i"

definition addChild :: "node \<Rightarrow> node \<Rightarrow> node" where
  "addChild c n = Node (ntype n) (children n @ [c]) (attrs n)"

definition clearChildren :: "node \<Rightarrow> node" where
  "clearChildren n = Node (ntype n) [] (attrs n)"

text \<open>
  The source mutates nodes in place. The tree is singly owned, so a mutation of the
  child reached by \<open>getChild(i)\<close> is written back at position \<open>i\<close>.
\<close>

definition setChild :: "nat \<Rightarrow> node \<Rightarrow> node \<Rightarrow> node" where
  "setChild i c n = Node (ntype n) ((children n)[i := c]) (attrs n)"

text \<open>Modelled from the spec: \<open>ExpressionNode.copy\<close>, the deep structural copy.\<close>

fun copy :: "node \<Rightarrow> node" where
  "copy (Node t cs as) = Node t (map copy cs) as"

subsection \<open>Outcomes\<close>

text \<open>
  A call returns, throws, leaves the numeric model, or runs out of fuel. Fuel bounds
  the call depth and the iterations of the \<open>while\<close> loops; \<open>OutOfFuel\<close> for every
  amount of fuel is non-termination.
\<close>

datatype error =
    ExpectedChildCount node_type nat nat
  | UnrecognizedComparison
  | UnknownFunction val
  | MissingDiceNode
  | ParseError
  | TypeError

datatype 'a outcome = Returns 'a | Throws error | Unmodelled | OutOfFuel

fun and_then :: "'a outcome \<Rightarrow> ('a \<Rightarrow> 'b outcome) \<Rightarrow> 'b outcome" where
  "and_then (Returns x) f = f x"
| "and_then (Throws e) f = Throws e"
| "and_then Unmodelled f = Unmodelled"
| "and_then OutOfFuel f = OutOfFuel"

subsection \<open>Interpreter state and environment\<close>

text \<open>
  The state threaded through an evaluation: the state of the random provider and the
  \<open>errors\<close> array that every method receives. The environment is the interpreter
  object: its function table and its random provider, a function from the provider's
  state and the two bounds to the drawn number and the next state.
\<close>

record 's istate =
  rng :: 's
  errors :: "string list"

type_synonym 's result = "(val \<times> node \<times> 's istate) outcome"

type_synonym 's evaluator = "node \<Rightarrow> 's istate \<Rightarrow> 's result"

type_synonym 's function_definition = "'s evaluator \<Rightarrow> node \<Rightarrow> 's istate \<Rightarrow> 's result"

record 's interpreter =
  function_table :: "string \<Rightarrow> 's function_definition option"
  random :: "'s \<Rightarrow> rat \<Rightarrow> rat \<Rightarrow> rat \<times> 's"

section \<open>JavaScript arithmetic on values\<close>

definition math_round :: "rat \<Rightarrow> rat" where
  "math_round x = of_int \<lfloor>x + 1 / 2\<rfloor>"

fun js_round :: "val \<Rightarrow> rat outcome" where
  "js_round (Num x) = Returns (math_round x)"
| "js_round _ = Unmodelled"

fun js_add :: "val \<Rightarrow> val \<Rightarrow> val outcome" where
  "js_add (Num a) (Num b) = Returns (Num (a + b))"
| "js_add _ _ = Unmodelled"

fun js_sub :: "val \<Rightarrow> val \<Rightarrow> val outcome" where
  "js_sub (Num a) (Num b) = Returns (Num (a - b))"
| "js_sub _ _ = Unmodelled"

fun js_mul :: "val \<Rightarrow> val \<Rightarrow> val outcome" where
  "js_mul (Num a) (Num b) = Returns (Num (a * b))"
| "js_mul _ _ = Unmodelled"

fun js_div :: "val \<Rightarrow> val \<Rightarrow> val outcome" where
  "js_div (Num a) (Num b) = (if b = 0 then Unmodelled else Returns (Num (a / b)))"
| "js_div _ _ = Unmodelled"

text \<open>The remainder takes the sign of the dividend: the quotient is truncated.\<close>

definition truncate :: "rat \<Rightarrow> int" where
  "truncate q = (if 0 \<le> q then \<lfloor>q\<rfloor> else \<lceil>q\<rceil>)"

fun js_mod :: "val \<Rightarrow> val \<Rightarrow> val outcome" where
  "js_mod (Num a) (Num b) =
     (if b = 0 then Unmodelled else Returns (Num (a - b * of_int (truncate (a / b)))))"
| "js_mod _ _ = Unmodelled"

fun js_pow :: "val \<Rightarrow> val \<Rightarrow> val outcome" where
  "js_pow (Num a) (Num b) =
     (if of_int \<lfloor>b\<rfloor> \<noteq> b then Unmodelled
      else if 0 \<le> b then Returns (Num (a ^ nat \<lfloor>b\<rfloor>))
      else if a = 0 then Unmodelled
      else Returns (Num (1 / a ^ nat (- \<lfloor>b\<rfloor>))))"
| "js_pow _ _ = Unmodelled"

fun js_neg :: "val \<Rightarrow> val outcome" where
  "js_neg (Num a) = Returns (Num (- a))"
| "js_neg _ = Unmodelled"

fun js_less :: "val \<Rightarrow> val \<Rightarrow> bool outcome" where
  "js_less (Num a) (Num b) = Returns (a < b)"
| "js_less _ _ = Unmodelled"

fun js_less_eq :: "val \<Rightarrow> val \<Rightarrow> bool outcome" where
  "js_less_eq (Num a) (Num b) = Returns (a \<le> b)"
| "js_less_eq _ _ = Unmodelled"

fun js_floor :: "val \<Rightarrow> val outcome" where
  "js_floor (Num x) = Returns (Num (of_int \<lfloor>x\<rfloor>))"
| "js_floor _ = Unmodelled"

section \<open>The interpreter\<close>

text \<open>
  Every method below takes the recursive \<open>this.evaluate\<close> as the parameter \<open>ev\<close>;
  \<open>evaluate\<close> ties the knot at the end by recursion on the fuel. A method returns the
  node it was given as the source has mutated it.
\<close>

definition expectChildCount :: "node \<Rightarrow> nat \<Rightarrow> unit outcome" where
  "expectChildCount expression expected =
     (if getChildCount expression < expected
      then Throws (ExpectedChildCount (ntype expression) expected (getChildCount expression))
      else Returns ())"

definition evaluateDiceRoll :: "node \<Rightarrow> 's istate \<Rightarrow> 's result" where
  "evaluateDiceRoll expression st =
     (if getAttribute expression ''drop'' \<noteq> Str ''yes''
      then Returns (getAttribute expression ''value'', expression, st)
      else Returns (Num 0, expression, st))"

text \<open>
  \<open>createDiceRollValue\<close> takes the sides as a node (from \<open>evaluateDice\<close>) or as a
  value (from the explode and reroll loops). It returns the drawn number and the sides
  node as the evaluation has left it.
\<close>

definition createDiceRollValue ::
  "'s interpreter \<Rightarrow> 's evaluator \<Rightarrow> node + val \<Rightarrow> 's istate \<Rightarrow> (rat \<times> (node + val) \<times> 's istate) outcome"
where
  "createDiceRollValue this ev sides st =
     (let sidesValue = (case sides of Inl n \<Rightarrow> getAttribute n ''value'' | Inr v \<Rightarrow> v) in
      if sidesValue = Str ''fate'' then
        (case random this (rng st) (- 1) 1 of
           (diceRoll, r) \<Rightarrow> Returns (diceRoll, sides, st\<lparr>rng := r\<rparr>))
      else
        and_then (case sides of
                    Inl n \<Rightarrow> and_then (ev n st) (\<lambda>(v, n1, st1). Returns (v, Inl n1, st1))
                  | Inr v \<Rightarrow> Returns (v, Inr v, st))
          (\<lambda>(v, sides1, st1).
        and_then (js_round v) (\<lambda>maxValue.
          (case random this (rng st1) 1 maxValue of
             (diceRoll, r) \<Rightarrow> Returns (diceRoll, sides1, st1\<lparr>rng := r\<rparr>)))))"

definition createDiceRoll ::
  "'s interpreter \<Rightarrow> 's evaluator \<Rightarrow> node + val \<Rightarrow> 's istate \<Rightarrow> (node \<times> (node + val) \<times> 's istate) outcome"
where
  "createDiceRoll this ev sides st =
     and_then (createDiceRollValue this ev sides st) (\<lambda>(diceRoll, sides1, st1).
       Returns (setAttribute ''drop'' (Str ''no'')
                  (setAttribute ''value'' (Num diceRoll) (create DiceRoll)), sides1, st1))"

text \<open>The \<open>for\<close> loop of \<open>evaluateDice\<close>, by recursion on the rolls still to make.\<close>

primrec rollDice ::
  "'s interpreter \<Rightarrow> 's evaluator \<Rightarrow> nat \<Rightarrow> node + val \<Rightarrow> node \<Rightarrow> val \<Rightarrow> 's istate \<Rightarrow> 's result"
where
  "rollDice this ev 0 sides expression tot st = Returns (tot, expression, st)"
| "rollDice this ev (Suc n) sides expression tot st =
     and_then (createDiceRoll this ev sides st) (\<lambda>(diceRoll, sides1, st1).
     and_then (ev diceRoll st1) (\<lambda>(v, diceRoll1, st2).
     and_then (js_add tot v) (\<lambda>tot1.
       rollDice this ev n sides1 (addChild diceRoll1 expression) tot1 st2)))"

definition evaluateDice :: "'s interpreter \<Rightarrow> 's evaluator \<Rightarrow> node \<Rightarrow> 's istate \<Rightarrow> 's result" where
  "evaluateDice this ev expression st =
     and_then (expectChildCount expression 2) (\<lambda>_.
     and_then (ev (getChild expression 0) st) (\<lambda>(v0, c0, st1).
     and_then (js_round v0) (\<lambda>num.
     and_then (ev (getChild expression 1) st1) (\<lambda>(sv, sides, st2).
       rollDice this ev (nat \<lfloor>num\<rfloor>) (Inl sides)
         (clearChildren (setAttribute ''sides'' sv expression)) (Num 0) st2))))"

definition evaluateFunction :: "'s interpreter \<Rightarrow> 's evaluator \<Rightarrow> node \<Rightarrow> 's istate \<Rightarrow> 's result" where
  "evaluateFunction this ev expression st =
     (case getAttribute expression ''name'' of
        Str fName \<Rightarrow>
          (case function_table this fName of
             None \<Rightarrow> Throws (UnknownFunction (Str fName))
           | Some f \<Rightarrow> f ev expression st)
      | v \<Rightarrow> Throws (UnknownFunction v))"

text \<open>
  The loop \<open>total += this.evaluate(expression.getChild(x), errors)\<close> over the child
  indices \<open>xs\<close>, shared by \<open>evaluateGroup\<close> and \<open>getSortedDiceRolls\<close>.
\<close>

primrec sumChildren :: "'s evaluator \<Rightarrow> nat list \<Rightarrow> node \<Rightarrow> val \<Rightarrow> 's istate \<Rightarrow> 's result" where
  "sumChildren ev [] expression tot st = Returns (tot, expression, st)"
| "sumChildren ev (x # xs) expression tot st =
     and_then (ev (getChild expression x) st) (\<lambda>(v, c, st1).
     and_then (js_add tot v) (\<lambda>tot1.
       sumChildren ev xs (setChild x c expression) tot1 st1))"

definition evaluateGroup :: "'s evaluator \<Rightarrow> node \<Rightarrow> 's istate \<Rightarrow> 's result" where
  "evaluateGroup ev expression st =
     sumChildren ev [0..<getChildCount expression] expression (Num 0) st"

text \<open>The loop of the comparison cases of \<open>evaluate\<close>: the children are evaluated, their values dropped.\<close>

primrec evaluateChildren :: "'s evaluator \<Rightarrow> nat list \<Rightarrow> node \<Rightarrow> 's istate \<Rightarrow> (node \<times> 's istate) outcome" where
  "evaluateChildren ev [] expression st = Returns (expression, st)"
| "evaluateChildren ev (x # xs) expression st =
     and_then (ev (getChild expression x) st) (\<lambda>(v, c, st1).
       evaluateChildren ev xs (setChild x c expression) st1)"

definition comparison :: "node_type \<Rightarrow> (val \<Rightarrow> val \<Rightarrow> bool outcome) option" where
  "comparison t =
     (case t of
        Equal \<Rightarrow> Some (\<lambda>lhs rhs. Returns (lhs = rhs))
      | Greater \<Rightarrow> Some (\<lambda>lhs rhs. js_less rhs lhs)
      | GreaterOrEqual \<Rightarrow> Some (\<lambda>lhs rhs. js_less_eq rhs lhs)
      | Less \<Rightarrow> Some (\<lambda>lhs rhs. js_less lhs rhs)
      | LessOrEqual \<Rightarrow> Some (\<lambda>lhs rhs. js_less_eq lhs rhs)
      | _ \<Rightarrow> None)"

definition evaluateComparison ::
  "'s evaluator \<Rightarrow> val \<Rightarrow> node \<Rightarrow> 's istate \<Rightarrow> (bool \<times> node \<times> 's istate) outcome"
where
  "evaluateComparison ev lhs expression st =
     and_then (expectChildCount expression 1) (\<lambda>_.
       (case comparison (ntype expression) of
          None \<Rightarrow> Throws UnrecognizedComparison
        | Some op \<Rightarrow>
            and_then (ev (getChild expression 0) st) (\<lambda>(rhs, c, st1).
            and_then (op lhs rhs) (\<lambda>b.
              Returns (b, setChild 0 c expression, st1)))))"

text \<open>
  \<open>findLeftmostDiceNode\<close> returns a reference to a node below \<open>expression\<close>: here the
  number of first-child steps that lead to it, read by \<open>nodeAt\<close> and written back by
  \<open>putAt\<close>. Each recursive call takes one unit of fuel.
\<close>

primrec nodeAt :: "nat \<Rightarrow> node \<Rightarrow> node" where
  "nodeAt 0 n = n"
| "nodeAt (Suc k) n = nodeAt k (getChild n 0)"

primrec putAt :: "nat \<Rightarrow> node \<Rightarrow> node \<Rightarrow> node" where
  "putAt 0 d n = d"
| "putAt (Suc k) d n = setChild 0 (putAt k d (getChild n 0)) n"

primrec findLeftmostDiceNode ::
  "nat \<Rightarrow> 's evaluator \<Rightarrow> node \<Rightarrow> 's istate \<Rightarrow> (nat \<times> node \<times> 's istate) outcome"
where
  "findLeftmostDiceNode 0 ev expression st =
     (if ntype expression = Dice then Returns (0, expression, st)
      else if getChildCount expression < 1 then Throws MissingDiceNode
      else OutOfFuel)"
| "findLeftmostDiceNode (Suc fuel) ev expression st =
     (if ntype expression = Dice then Returns (0, expression, st)
      else if getChildCount expression < 1 then Throws MissingDiceNode
      else
        and_then (ev (getChild expression 0) st) (\<lambda>(v, child, st1).
        and_then (findLeftmostDiceNode fuel ev child st1) (\<lambda>(k, child1, st2).
          Returns (Suc k, setChild 0 child1 expression, st2))))"

text \<open>
  The optional condition of a modifier, \<open>expression.getChild(1)\<close>: evaluated once
  before the rolls are visited, and written back afterwards.
\<close>

definition evaluateCondition ::
  "'s evaluator \<Rightarrow> node \<Rightarrow> 's istate \<Rightarrow> (node option \<times> 's istate) outcome"
where
  "evaluateCondition ev expression st =
     (if getChildCount expression > 1
      then and_then (ev (getChild expression 1) st) (\<lambda>(v, c, st1). Returns (Some c, st1))
      else Returns (None, st))"

definition putCondition :: "node option \<Rightarrow> node \<Rightarrow> node" where
  "putCondition condition expression =
     (case condition of None \<Rightarrow> expression | Some c \<Rightarrow> setChild 1 c expression)"

text \<open>The test \<open>condition && this.evaluateComparison(dieValue, condition, errors)\<close>.\<close>

definition conditionHolds ::
  "'s evaluator \<Rightarrow> val \<Rightarrow> node option \<Rightarrow> 's istate \<Rightarrow> (bool \<times> node option \<times> 's istate) outcome"
where
  "conditionHolds ev dieValue condition st =
     (case condition of
        None \<Rightarrow> Returns (False, None, st)
      | Some c \<Rightarrow>
          and_then (evaluateComparison ev dieValue c st) (\<lambda>(b, c1, st1).
            Returns (b, Some c1, st1)))"

subsection \<open>Explode\<close>

primrec explodeWhile ::
  "nat \<Rightarrow> 's interpreter \<Rightarrow> 's evaluator \<Rightarrow> bool \<Rightarrow> val \<Rightarrow> node option \<Rightarrow> val \<Rightarrow> val \<Rightarrow> node list
     \<Rightarrow> 's istate \<Rightarrow> (node option \<times> val \<times> node list \<times> 's istate) outcome"
where
  "explodeWhile 0 this ev penetrate sides condition dieValue tot newRolls st = OutOfFuel"
| "explodeWhile (Suc fuel) this ev penetrate sides condition dieValue tot newRolls st =
     and_then (conditionHolds ev dieValue condition st) (\<lambda>(b, condition1, st1).
       if b \<or> dieValue = sides then
         and_then (createDiceRoll this ev (Inr sides) st1) (\<lambda>(die, sides1, st2).
         and_then (ev die st2) (\<lambda>(v, die1, st3).
         and_then (if penetrate then js_sub v (Num 1) else Returns v) (\<lambda>dieValue1.
         and_then (js_add tot dieValue1) (\<lambda>tot1.
           explodeWhile fuel this ev penetrate sides condition1 dieValue1 tot1
             (newRolls @ [die1]) st3))))
       else Returns (condition1, tot, newRolls, st1))"

primrec explodeRolls ::
  "nat \<Rightarrow> 's interpreter \<Rightarrow> 's evaluator \<Rightarrow> bool \<Rightarrow> val \<Rightarrow> nat list \<Rightarrow> node option \<Rightarrow> node \<Rightarrow> val
     \<Rightarrow> node list \<Rightarrow> 's istate \<Rightarrow> (node option \<times> node \<times> val \<times> node list \<times> 's istate) outcome"
where
  "explodeRolls fuel this ev penetrate sides [] condition dice tot newRolls st =
     Returns (condition, dice, tot, newRolls, st)"
| "explodeRolls fuel this ev penetrate sides (rollIndex # rest) condition dice tot newRolls st =
     (if getAttribute (getChild dice rollIndex) ''drop'' = Str ''yes''
      then explodeRolls fuel this ev penetrate sides rest condition dice tot newRolls st
      else
        and_then (ev (getChild dice rollIndex) st) (\<lambda>(dieValue, die, st1).
        and_then (js_add tot dieValue) (\<lambda>tot1.
        and_then (explodeWhile fuel this ev penetrate sides condition dieValue tot1 newRolls st1)
          (\<lambda>(condition1, tot2, newRolls1, st2).
            explodeRolls fuel this ev penetrate sides rest condition1
              (setChild rollIndex die dice) tot2 newRolls1 st2))))"

definition evaluateExplode ::
  "nat \<Rightarrow> 's interpreter \<Rightarrow> 's evaluator \<Rightarrow> node \<Rightarrow> 's istate \<Rightarrow> 's result"
where
  "evaluateExplode fuel this ev expression st =
     and_then (expectChildCount expression 1) (\<lambda>_.
     and_then (findLeftmostDiceNode fuel ev expression st) (\<lambda>(k, expression1, st1).
     and_then (evaluateCondition ev expression1 st1) (\<lambda>(condition, st2).
     and_then (ev (nodeAt k expression1) st2) (\<lambda>(v, dice, st3).
     and_then (explodeRolls fuel this ev (getAttribute expression1 ''penetrate'' = Str ''yes'')
                 (getAttribute dice ''sides'') [0..<getChildCount dice] condition dice (Num 0) [] st3)
       (\<lambda>(condition1, dice1, tot, newRolls, st4).
         Returns (tot,
           putCondition condition1
             (putAt k (foldl (\<lambda>d newRoll. addChild newRoll d) dice1 newRolls) expression1),
           st4))))))"

subsection \<open>Sorting the rolls\<close>

text \<open>
  \<open>getSortedDiceRolls\<close> collects references to the children of the dice node and
  sorts them by their \<open>value\<close> attribute. A reference to a child is its index, so the
  sorted array is a list of indices. \<open>Array.prototype.sort\<close> is stable; with a
  direction that is neither \<open>"ascending"\<close> nor \<open>"descending"\<close> the comparator is
  \<open>undefined\<close>, the nodes compare by their (equal) string conversions, and the order
  stays. A value that is not a number makes the comparator return \<open>NaN\<close>.
\<close>

primrec rollValues :: "node list \<Rightarrow> rat list outcome" where
  "rollValues [] = Returns []"
| "rollValues (die # dice) =
     (case getAttribute die ''value'' of
        Num q \<Rightarrow> and_then (rollValues dice) (\<lambda>qs. Returns (q # qs))
      | _ \<Rightarrow> Unmodelled)"

definition sortRolls :: "val \<Rightarrow> node \<Rightarrow> nat list outcome" where
  "sortRolls direction dice =
     (if direction = Str ''descending'' then
        and_then (rollValues (children dice)) (\<lambda>qs.
          Returns (sort_key (\<lambda>i. - (qs ! i)) [0..<getChildCount dice]))
      else if direction = Str ''ascending'' then
        and_then (rollValues (children dice)) (\<lambda>qs.
          Returns (sort_key (\<lambda>i. qs ! i) [0..<getChildCount dice]))
      else Returns [0..<getChildCount dice])"

definition getSortedDiceRolls ::
  "'s evaluator \<Rightarrow> node \<Rightarrow> val \<Rightarrow> 's istate \<Rightarrow> (nat list \<times> val \<times> node \<times> 's istate) outcome"
where
  "getSortedDiceRolls ev dice direction st =
     and_then (sumChildren ev [0..<getChildCount dice] dice (Num 0) st) (\<lambda>(tot, dice1, st1).
     and_then (sortRolls direction dice1) (\<lambda>rolls.
       Returns (rolls, tot, dice1, st1)))"

subsection \<open>Keep and Drop\<close>

definition evaluateCount :: "'s evaluator \<Rightarrow> node \<Rightarrow> 's istate \<Rightarrow> 's result" where
  "evaluateCount ev expression st =
     (if getChildCount expression > 1
      then and_then (ev (getChild expression 1) st) (\<lambda>(v, c, st1).
             Returns (v, setChild 1 c expression, st1))
      else Returns (Num 1, expression, st))"

definition markRoll :: "string \<Rightarrow> nat \<Rightarrow> node \<Rightarrow> node" where
  "markRoll flag roll dice = setChild roll (setAttribute ''drop'' (Str flag) (getChild dice roll)) dice"

primrec keepRolls :: "val \<Rightarrow> nat list \<Rightarrow> nat \<Rightarrow> node \<Rightarrow> val \<Rightarrow> (node \<times> val) outcome" where
  "keepRolls countTotal [] cnt dice tot = Returns (dice, tot)"
| "keepRolls countTotal (roll # rolls) cnt dice tot =
     and_then (js_less (Num (of_nat cnt)) countTotal) (\<lambda>b.
       if b then
         and_then (js_add tot (getAttribute (getChild dice roll) ''value'')) (\<lambda>tot1.
           keepRolls countTotal rolls (Suc cnt) (markRoll ''no'' roll dice) tot1)
       else keepRolls countTotal rolls (Suc cnt) (markRoll ''yes'' roll dice) tot)"

primrec dropRolls :: "val \<Rightarrow> nat list \<Rightarrow> nat \<Rightarrow> node \<Rightarrow> val \<Rightarrow> (node \<times> val) outcome" where
  "dropRolls countTotal [] cnt dice tot = Returns (dice, tot)"
| "dropRolls countTotal (roll # rolls) cnt dice tot =
     and_then (js_less (Num (of_nat cnt)) countTotal) (\<lambda>b.
       if b then dropRolls countTotal rolls (Suc cnt) (markRoll ''yes'' roll dice) tot
       else
         and_then (js_add tot (getAttribute (getChild dice roll) ''value'')) (\<lambda>tot1.
           dropRolls countTotal rolls (Suc cnt) (markRoll ''no'' roll dice) tot1))"

definition sortDirection :: "node \<Rightarrow> val" where
  "sortDirection expression =
     (if getAttribute expression ''type'' = Str ''lowest'' then Str ''ascending'' else Str ''descending'')"

definition evaluateKeep :: "nat \<Rightarrow> 's evaluator \<Rightarrow> node \<Rightarrow> 's istate \<Rightarrow> 's result" where
  "evaluateKeep fuel ev expression st =
     and_then (expectChildCount expression 1) (\<lambda>_.
     and_then (findLeftmostDiceNode fuel ev expression st) (\<lambda>(k, expression1, st1).
     and_then (evaluateCount ev expression1 st1) (\<lambda>(countTotal, expression2, st2).
     and_then (ev (nodeAt k expression2) st2) (\<lambda>(v, dice, st3).
     and_then (getSortedDiceRolls ev dice (sortDirection expression2) st3) (\<lambda>(rolls, t, dice1, st4).
     and_then (keepRolls countTotal rolls 0 dice1 (Num 0)) (\<lambda>(dice2, tot).
       Returns (tot, putAt k dice2 expression2, st4)))))))"

definition evaluateDrop :: "nat \<Rightarrow> 's evaluator \<Rightarrow> node \<Rightarrow> 's istate \<Rightarrow> 's result" where
  "evaluateDrop fuel ev expression st =
     and_then (expectChildCount expression 1) (\<lambda>_.
     and_then (findLeftmostDiceNode fuel ev expression st) (\<lambda>(k, expression1, st1).
     and_then (evaluateCount ev expression1 st1) (\<lambda>(countTotal, expression2, st2).
     and_then (ev (nodeAt k expression2) st2) (\<lambda>(v, dice, st3).
     and_then (getSortedDiceRolls ev dice (sortDirection expression2) st3) (\<lambda>(rolls, t, dice1, st4).
     and_then (dropRolls countTotal rolls 0 dice1 (Num 0)) (\<lambda>(dice2, tot).
       Returns (tot, putAt k dice2 expression2, st4)))))))"

subsection \<open>Critical\<close>

primrec criticalRolls ::
  "'s evaluator \<Rightarrow> val \<Rightarrow> nat list \<Rightarrow> node \<Rightarrow> node \<Rightarrow> val \<Rightarrow> 's istate
     \<Rightarrow> (node \<times> node \<times> val \<times> 's istate) outcome"
where
  "criticalRolls ev type_attr [] condition dice tot st = Returns (condition, dice, tot, st)"
| "criticalRolls ev type_attr (rollIndex # rest) condition dice tot st =
     and_then (ev (getChild dice rollIndex) st) (\<lambda>(dieValue, die, st1).
     and_then (evaluateComparison ev dieValue condition st1) (\<lambda>(b, condition1, st2).
     and_then (js_add tot dieValue) (\<lambda>tot1.
       criticalRolls ev type_attr rest condition1
         (setChild rollIndex (if b then setAttribute ''critical'' type_attr die else die) dice)
         tot1 st2)))"

definition criticalCondition ::
  "'s evaluator \<Rightarrow> node \<Rightarrow> node \<Rightarrow> 's istate \<Rightarrow> (node \<times> 's istate) outcome"
where
  "criticalCondition ev expression dice st =
     (if getChildCount expression > 1 then
        and_then (ev (getChild expression 1) st) (\<lambda>(v, c, st1). Returns (c, st1))
      else if getAttribute expression ''type'' = Str ''success'' then
        and_then (expectChildCount dice 2) (\<lambda>_.
          Returns (addChild (setAttribute ''value'' (getAttribute dice ''sides'') (create Integer))
                     (create Equal), st))
      else
        Returns (addChild (setAttribute ''value'' (Num 1) (create Integer)) (create Equal), st))"

definition evaluateCritical :: "nat \<Rightarrow> 's evaluator \<Rightarrow> node \<Rightarrow> 's istate \<Rightarrow> 's result" where
  "evaluateCritical fuel ev expression st =
     and_then (expectChildCount expression 1) (\<lambda>_.
     and_then (findLeftmostDiceNode fuel ev expression st) (\<lambda>(k, expression1, st1).
     and_then (criticalCondition ev expression1 (nodeAt k expression1) st1) (\<lambda>(condition, st2).
     and_then (ev (nodeAt k expression1) st2) (\<lambda>(v, dice, st3).
     and_then (criticalRolls ev (getAttribute expression1 ''type'') [0..<getChildCount dice]
                 condition dice (Num 0) st3)
       (\<lambda>(condition1, dice1, tot, st4).
         Returns (tot,
           putCondition (if getChildCount expression1 > 1 then Some condition1 else None)
             (putAt k dice1 expression1),
           st4))))))"

subsection \<open>Reroll\<close>

primrec rerollWhile ::
  "nat \<Rightarrow> 's interpreter \<Rightarrow> 's evaluator \<Rightarrow> bool \<Rightarrow> val \<Rightarrow> node option \<Rightarrow> val \<Rightarrow> 's istate
     \<Rightarrow> (node option \<times> val \<times> 's istate) outcome"
where
  "rerollWhile 0 this ev once sides condition dieValue st = OutOfFuel"
| "rerollWhile (Suc fuel) this ev once sides condition dieValue st =
     and_then (conditionHolds ev dieValue condition st) (\<lambda>(b, condition1, st1).
       if b \<or> dieValue = Num 1 then
         and_then (createDiceRollValue this ev (Inr sides) st1) (\<lambda>(v, sides1, st2).
           if once then Returns (condition1, Num v, st2)
           else rerollWhile fuel this ev once sides condition1 (Num v) st2)
       else Returns (condition1, dieValue, st1))"

primrec rerollRolls ::
  "nat \<Rightarrow> 's interpreter \<Rightarrow> 's evaluator \<Rightarrow> bool \<Rightarrow> val \<Rightarrow> nat list \<Rightarrow> node option \<Rightarrow> node \<Rightarrow> val
     \<Rightarrow> 's istate \<Rightarrow> (node option \<times> node \<times> val \<times> 's istate) outcome"
where
  "rerollRolls fuel this ev once sides [] condition dice tot st = Returns (condition, dice, tot, st)"
| "rerollRolls fuel this ev once sides (rollIndex # rest) condition dice tot st =
     (if getAttribute (getChild dice rollIndex) ''drop'' = Str ''yes''
      then rerollRolls fuel this ev once sides rest condition dice tot st
      else
        and_then (ev (getChild dice rollIndex) st) (\<lambda>(dieValue, die, st1).
        and_then (rerollWhile fuel this ev once sides condition dieValue st1)
          (\<lambda>(condition1, dieValue1, st2).
        and_then (js_add tot dieValue1) (\<lambda>tot1.
          rerollRolls fuel this ev once sides rest condition1
            (setChild rollIndex (setAttribute ''value'' dieValue1 die) dice) tot1 st2))))"

definition evaluateReroll ::
  "nat \<Rightarrow> 's interpreter \<Rightarrow> 's evaluator \<Rightarrow> node \<Rightarrow> 's istate \<Rightarrow> 's result"
where
  "evaluateReroll fuel this ev expression st =
     and_then (expectChildCount expression 1) (\<lambda>_.
     and_then (findLeftmostDiceNode fuel ev expression st) (\<lambda>(k, expression1, st1).
     and_then (evaluateCondition ev expression1 st1) (\<lambda>(condition, st2).
     and_then (ev (nodeAt k expression1) st2) (\<lambda>(v, dice, st3).
     and_then (rerollRolls fuel this ev (getAttribute expression1 ''once'' = Str ''yes'')
                 (getAttribute dice ''sides'') [0..<getChildCount dice] condition dice (Num 0) st3)
       (\<lambda>(condition1, dice1, tot, st4).
         Returns (tot, putCondition condition1 (putAt k dice1 expression1), st4))))))"

subsection \<open>Sort\<close>

definition evaluateSort :: "nat \<Rightarrow> 's evaluator \<Rightarrow> node \<Rightarrow> 's istate \<Rightarrow> 's result" where
  "evaluateSort fuel ev expression st =
     and_then (expectChildCount expression 1) (\<lambda>_.
     and_then (findLeftmostDiceNode fuel ev expression st) (\<lambda>(k, expression1, st1).
     and_then (getSortedDiceRolls ev (nodeAt k expression1) (getAttribute expression1 ''direction'') st1)
       (\<lambda>(rolls, tot, dice, st2).
         Returns (tot,
           putAt k (foldl (\<lambda>d roll. addChild (getChild dice roll) d) (clearChildren dice) rolls)
             expression1,
           st2))))"

subsection \<open>evaluate\<close>

definition binaryOperation ::
  "(val \<Rightarrow> val \<Rightarrow> val outcome) \<Rightarrow> 's evaluator \<Rightarrow> node \<Rightarrow> 's istate \<Rightarrow> 's result"
where
  "binaryOperation op ev expression st =
     and_then (expectChildCount expression 2) (\<lambda>_.
     and_then (ev (getChild expression 0) st) (\<lambda>(v0, c0, st1).
     and_then (ev (getChild expression 1) st1) (\<lambda>(v1, c1, st2).
     and_then (op v0 v1) (\<lambda>v.
       Returns (v, setChild 1 c1 (setChild 0 c0 expression), st2)))))"

definition evaluateNegate :: "'s evaluator \<Rightarrow> node \<Rightarrow> 's istate \<Rightarrow> 's result" where
  "evaluateNegate ev expression st =
     and_then (expectChildCount expression 1) (\<lambda>_.
     and_then (ev (getChild expression 0) st) (\<lambda>(v0, c0, st1).
     and_then (js_neg v0) (\<lambda>v.
       Returns (v, setChild 0 c0 expression, st1))))"

text \<open>
  The \<open>switch\<close> of \<open>evaluate\<close>, for a node whose \<open>value\<close> attribute is not truthy. The
  node types are those of the data model, so the \<open>default\<close> branch
  (\<open>"Unrecognized node."\<close>) has no case here; a \<open>DiceRoll\<close> is answered before the switch.
\<close>

definition evaluateCase ::
  "nat \<Rightarrow> 's interpreter \<Rightarrow> 's evaluator \<Rightarrow> node \<Rightarrow> 's istate \<Rightarrow> 's result"
where
  "evaluateCase fuel this ev expression st =
     (case ntype expression of
        Add \<Rightarrow> binaryOperation js_add ev expression st
      | Subtract \<Rightarrow> binaryOperation js_sub ev expression st
      | Multiply \<Rightarrow> binaryOperation js_mul ev expression st
      | Divide \<Rightarrow> binaryOperation js_div ev expression st
      | Modulo \<Rightarrow> binaryOperation js_mod ev expression st
      | Negate \<Rightarrow> evaluateNegate ev expression st
      | DiceSides \<Rightarrow> Returns (getAttribute expression ''value'', expression, st)
      | Dice \<Rightarrow> evaluateDice this ev expression st
      | Integer \<Rightarrow> Returns (getAttribute expression ''value'', expression, st)
      | Function \<Rightarrow> evaluateFunction this ev expression st
      | Group \<Rightarrow> evaluateGroup ev expression st
      | Explode \<Rightarrow> evaluateExplode fuel this ev expression st
      | Keep \<Rightarrow> evaluateKeep fuel ev expression st
      | Drop \<Rightarrow> evaluateDrop fuel ev expression st
      | Critical \<Rightarrow> evaluateCritical fuel ev expression st
      | Reroll \<Rightarrow> evaluateReroll fuel this ev expression st
      | Sort \<Rightarrow> evaluateSort fuel ev expression st
      | Exponent \<Rightarrow> binaryOperation js_pow ev expression st
      | DiceRoll \<Rightarrow> evaluateDiceRoll expression st
      | _ \<Rightarrow>
          and_then (evaluateChildren ev [0..<getChildCount expression] expression st)
            (\<lambda>(expression1, st1). Returns (Num 0, expression1, st1)))"

definition evaluateStep ::
  "nat \<Rightarrow> 's interpreter \<Rightarrow> 's evaluator \<Rightarrow> node \<Rightarrow> 's istate \<Rightarrow> 's result"
where
  "evaluateStep fuel this ev expression st =
     (if ntype expression = DiceRoll then evaluateDiceRoll expression st
      else if \<not> truthy (getAttribute expression ''value'') then
        and_then (evaluateCase fuel this ev expression st) (\<lambda>(v, expression1, st1).
          Returns (getAttribute (setAttribute ''value'' v expression1) ''value'',
                   setAttribute ''value'' v expression1, st1))
      else Returns (getAttribute expression ''value'', expression, st))"

primrec evaluate :: "nat \<Rightarrow> 's interpreter \<Rightarrow> node \<Rightarrow> 's istate \<Rightarrow> 's result" where
  "evaluate 0 this = (\<lambda>expression st. OutOfFuel)"
| "evaluate (Suc fuel) this = evaluateStep fuel this (evaluate fuel this)"

subsection \<open>interpret\<close>

record dice_result =
  result_tree :: node
  result_total :: val
  successes :: nat
  fails :: nat
  result_errors :: "string list"

definition countSuccesses :: "node \<Rightarrow> string list \<Rightarrow> nat" where
  "countSuccesses expression errs = 0"

definition countFailures :: "node \<Rightarrow> string list \<Rightarrow> nat" where
  "countFailures expression errs = 0"

text \<open>
  \<open>interpret\<close> returns the result together with the state in which it leaves the
  random provider, the only state that outlives the call.
\<close>

definition interpret_expression ::
  "nat \<Rightarrow> 's interpreter \<Rightarrow> node \<Rightarrow> 's \<Rightarrow> (dice_result \<times> 's) outcome"
where
  "interpret_expression fuel this expression r =
     (let expr = copy expression in
      and_then (evaluate fuel this expr \<lparr>rng = r, errors = []\<rparr>) (\<lambda>(tot, expr1, st1).
        Returns (\<lparr>result_tree = expr1, result_total = tot,
                  successes = countSuccesses expr1 (errors st1),
                  fails = countFailures expr1 (errors st1),
                  result_errors = errors st1\<rparr>, rng st1)))"

text \<open>
  The caller of \<open>interpret\<close> holds a reference to the tree it passes, and the result
  holds a reference to the tree that was evaluated. To say which object is mutated, a
  store of trees: a reference is an index, \<open>copy\<close> allocates a new cell, and
  \<open>evaluate\<close> mutates the tree in the cell it is given.
\<close>

record dice_result_ref =
  tree_ref :: nat
  total_ref :: val
  successes_ref :: nat
  fails_ref :: nat
  errors_ref :: "string list"

definition copy_ref :: "nat \<Rightarrow> node list \<Rightarrow> nat \<times> node list" where
  "copy_ref expression store = (length store, store @ [copy (store ! expression)])"

definition interpret_ref ::
  "nat \<Rightarrow> 's interpreter \<Rightarrow> nat \<Rightarrow> node list \<times> 's \<Rightarrow> (dice_result_ref \<times> node list \<times> 's) outcome"
where
  "interpret_ref fuel this expression s =
     (case s of (store, r) \<Rightarrow>
       (case copy_ref expression store of (expr, store1) \<Rightarrow>
          and_then (evaluate fuel this (store1 ! expr) \<lparr>rng = r, errors = []\<rparr>) (\<lambda>(tot, expr1, st1).
            Returns (\<lparr>tree_ref = expr, total_ref = tot,
                      successes_ref = countSuccesses expr1 (errors st1),
                      fails_ref = countFailures expr1 (errors st1),
                      errors_ref = errors st1\<rparr>, store1[expr := expr1], rng st1))))"

subsection \<open>The constructor\<close>

text \<open>
  \<open>this.functions = DefaultFunctionDefinitions\<close> stores a reference to the module's
  table object, and \<open>Object.assign(this.functions, functions)\<close> writes through it. The
  heap holds the contents of the table objects; the module's default table is the only
  one an interpreter refers to. Its initial contents (\<open>default-function-definitions\<close>)
  and the default random provider are not among the sources and are parameters.
\<close>

datatype table_ref = DefaultFunctionDefinitions

type_synonym 's function_definition_list = "string \<Rightarrow> 's function_definition option"

type_synonym 's heap = "table_ref \<Rightarrow> 's function_definition_list"

record 's dice_interpreter =
  functions_ref :: table_ref
  random_provider :: "'s \<Rightarrow> rat \<Rightarrow> rat \<Rightarrow> rat \<times> 's"

definition object_assign ::
  "'s function_definition_list \<Rightarrow> 's function_definition_list option \<Rightarrow> 's function_definition_list"
where
  "object_assign target source = (case source of None \<Rightarrow> target | Some src \<Rightarrow> target ++ src)"

definition new_DiceInterpreter ::
  "'s function_definition_list option \<Rightarrow> ('s \<Rightarrow> rat \<Rightarrow> rat \<Rightarrow> rat \<times> 's) option
     \<Rightarrow> ('s \<Rightarrow> rat \<Rightarrow> rat \<Rightarrow> rat \<times> 's) \<Rightarrow> 's heap \<Rightarrow> 's dice_interpreter \<times> 's heap"
where
  "new_DiceInterpreter custom rnd default_random heap =
     (let this_functions = DefaultFunctionDefinitions;
          heap1 = heap(this_functions := object_assign (heap this_functions) custom)
      in (\<lparr>functions_ref = this_functions,
           random_provider = (case rnd of None \<Rightarrow> default_random | Some p \<Rightarrow> p)\<rparr>, heap1))"

text \<open>The interpreter as \<open>evaluate\<close> sees it: \<open>this.functions\<close> is read through the reference.\<close>

definition interpreter_in :: "'s heap \<Rightarrow> 's dice_interpreter \<Rightarrow> 's interpreter" where
  "interpreter_in heap this =
     \<lparr>function_table = heap (functions_ref this), random = random_provider this\<rparr>"

section \<open>The parser\<close>

subsection \<open>Tokens and the lexer\<close>

text \<open>
  Modelled from the spec: the token classes and the lexer are not among the sources.
  A token has a type, a source offset and its raw text. The token types carry the
  suffix \<open>Token\<close>, as several share their name with a node type. The lexer scans
  digits into an \<open>Integer\<close> token, letters into an \<open>Identifier\<close> token and the fixed
  symbols into their operator tokens (the longest symbol first), skips white space and
  turns any other character into an \<open>Unknown\<close> token. The parser sees the lexer as
  the list of tokens still to read; past the last one it reads \<open>EndOfInput\<close>.
\<close>

datatype token_type =
    IntegerToken | IdentifierToken
  | PlusToken | MinusToken | AsteriskToken | SlashToken | PercentToken | DoubleAsteriskToken
  | EqualsToken | GreaterToken | GreaterOrEqualToken | LessToken | LessOrEqualToken
  | ParenthesisOpenToken | ParenthesisCloseToken | BraceOpenToken | BraceCloseToken
  | CommaToken | EndOfInputToken | UnknownToken

datatype token = Token (ttype: token_type) (position: nat) (tvalue: string)

definition is_digit :: "char \<Rightarrow> bool" where
  "is_digit c = (c \<in> set ''0123456789'')"

definition is_letter :: "char \<Rightarrow> bool" where
  "is_letter c = (c \<in> set ''abcdefghijklmnopqrstuvwxyzABCDEFGHIJKLMNOPQRSTUVWXYZ'')"

definition is_space :: "char \<Rightarrow> bool" where
  "is_space c = (c \<in> set [CHR '' '', CHR 0x09, CHR 0x0A, CHR 0x0D])"

definition symbol_token :: "char \<Rightarrow> token_type" where
  "symbol_token c =
     (if c = CHR ''+'' then PlusToken else if c = CHR ''-'' then MinusToken
      else if c = CHR ''*'' then AsteriskToken else if c = CHR ''/'' then SlashToken
      else if c = CHR ''%'' then PercentToken else if c = CHR ''='' then EqualsToken
      else if c = CHR ''>'' then GreaterToken else if c = CHR ''<'' then LessToken
      else if c = CHR ''('' then ParenthesisOpenToken else if c = CHR '')'' then ParenthesisCloseToken
      else if c = CHR ''{'' then BraceOpenToken else if c = CHR ''}'' then BraceCloseToken
      else if c = CHR '','' then CommaToken else UnknownToken)"

function scan :: "nat \<Rightarrow> string \<Rightarrow> token list" where
  "scan pos [] = []"
| "scan pos (c # cs) =
     (if is_space c then scan (pos + 1) cs
      else if is_digit c then
        Token IntegerToken pos (c # takeWhile is_digit cs)
          # scan (pos + 1 + length (takeWhile is_digit cs)) (dropWhile is_digit cs)
      else if is_letter c then
        Token IdentifierToken pos (c # takeWhile is_letter cs)
          # scan (pos + 1 + length (takeWhile is_letter cs)) (dropWhile is_letter cs)
      else if c = CHR ''*'' \<and> cs \<noteq> [] \<and> hd cs = CHR ''*'' then
        Token DoubleAsteriskToken pos ''**'' # scan (pos + 2) (tl cs)
      else if c = CHR ''>'' \<and> cs \<noteq> [] \<and> hd cs = CHR ''='' then
        Token GreaterOrEqualToken pos ''>='' # scan (pos + 2) (tl cs)
      else if c = CHR ''<'' \<and> cs \<noteq> [] \<and> hd cs = CHR ''='' then
        Token LessOrEqualToken pos ''<='' # scan (pos + 2) (tl cs)
      else Token (symbol_token c) pos [c] # scan (pos + 1) cs)"
  by pat_completeness auto
termination
  by (relation "measure (\<lambda>(pos, cs). length cs)")
     (auto simp: less_Suc_eq_le length_dropWhile_le)

definition lex :: "string \<Rightarrow> token list" where
  "lex input = scan 0 input"

definition peekNextToken :: "token list \<Rightarrow> token" where
  "peekNextToken lexer = (case lexer of [] \<Rightarrow> Token EndOfInputToken 0 [] | t # ts \<Rightarrow> t)"

definition getNextToken :: "token list \<Rightarrow> token \<times> token list" where
  "getNextToken lexer = (case lexer of [] \<Rightarrow> (Token EndOfInputToken 0 [], []) | t # ts \<Rightarrow> (t, ts))"

text \<open>
  \<open>Number(token.value)\<close> on the text of a token: the value of a string of decimal
  digits. Any other text leaves the model.
\<close>

definition digit_value :: "char \<Rightarrow> nat" where
  "digit_value c = of_char c - 48"

definition number_of :: "string \<Rightarrow> val outcome" where
  "number_of text_value =
     (if list_all is_digit text_value
      then Returns (Num (of_nat (foldl (\<lambda>n c. 10 * n + digit_value c) 0 text_value)))
      else Unmodelled)"

subsection \<open>The operator maps\<close>

definition BooleanOperatorMap :: "token_type \<Rightarrow> node_type option" where
  "BooleanOperatorMap t =
     (case t of
        EqualsToken \<Rightarrow> Some Equal
      | GreaterToken \<Rightarrow> Some Greater
      | LessToken \<Rightarrow> Some Less
      | GreaterOrEqualToken \<Rightarrow> Some GreaterOrEqual
      | LessOrEqualToken \<Rightarrow> Some LessOrEqual
      | _ \<Rightarrow> None)"

definition AddOperatorMap :: "token_type \<Rightarrow> node_type option" where
  "AddOperatorMap t =
     (case t of PlusToken \<Rightarrow> Some Add | MinusToken \<Rightarrow> Some Subtract | _ \<Rightarrow> None)"

definition MultiOperatorMap :: "token_type \<Rightarrow> node_type option" where
  "MultiOperatorMap t =
     (case t of
        DoubleAsteriskToken \<Rightarrow> Some Exponent
      | AsteriskToken \<Rightarrow> Some Multiply
      | SlashToken \<Rightarrow> Some Divide
      | PercentToken \<Rightarrow> Some Modulo
      | _ \<Rightarrow> None)"

subsection \<open>The parse methods\<close>

text \<open>
  A parse method takes the lexer and returns the node with the lexer as it leaves it.
  Modelled from the spec: \<open>BasicParser\<close> is not among the sources; its
  \<open>expectAndConsume\<close> checks the type of the next token and consumes it, and its
  \<open>error\<close> aborts the parse. The methods take the recursive \<open>parseExpression\<close> as
  the parameter \<open>pe\<close>; each loop iteration and each nesting level takes fuel.
\<close>

type_synonym parser = "token list \<Rightarrow> (node \<times> token list) outcome"

definition expectAndConsume :: "token_type \<Rightarrow> token list \<Rightarrow> (token \<times> token list) outcome" where
  "expectAndConsume expected lexer =
     (if ttype (peekNextToken lexer) \<noteq> expected then Throws ParseError
      else Returns (getNextToken lexer))"

definition parseInteger :: parser where
  "parseInteger lexer =
     (case getNextToken lexer of (numberToken, lexer1) \<Rightarrow>
        and_then (number_of (tvalue numberToken)) (\<lambda>n.
          Returns (setAttribute ''value'' n (create Integer), lexer1)))"

definition parseBracketedExpression :: "parser \<Rightarrow> parser" where
  "parseBracketedExpression pe lexer =
     (case getNextToken lexer of (t, lexer1) \<Rightarrow>
        and_then (pe lexer1) (\<lambda>(rootNode, lexer2).
        and_then (expectAndConsume ParenthesisCloseToken lexer2) (\<lambda>(t1, lexer3).
          Returns (rootNode, lexer3))))"

definition parseSimpleDiceRoll :: "parser \<Rightarrow> node option \<Rightarrow> parser" where
  "parseSimpleDiceRoll pe rollTimes lexer =
     and_then
       (case rollTimes of
          Some n \<Rightarrow> Returns (n, lexer)
        | None \<Rightarrow>
            (case ttype (peekNextToken lexer) of
               IntegerToken \<Rightarrow> parseInteger lexer
             | ParenthesisOpenToken \<Rightarrow> parseBracketedExpression pe lexer
             | _ \<Rightarrow> Throws ParseError))
       (\<lambda>(rollTimes1, lexer1).
     and_then (expectAndConsume IdentifierToken lexer1) (\<lambda>(tok, lexer2).
       (let rootNode = addChild rollTimes1 (create Dice) in
        if tvalue tok = ''d'' then
          and_then (expectAndConsume IntegerToken lexer2) (\<lambda>(sidesToken, lexer3).
          and_then (number_of (tvalue sidesToken)) (\<lambda>n.
            Returns (addChild (setAttribute ''value'' n (create DiceSides)) rootNode, lexer3)))
        else if tvalue tok = ''dF'' then
          Returns (addChild (setAttribute ''value'' (Str ''fate'') (create DiceSides)) rootNode, lexer2)
        else Returns (rootNode, lexer2))))"

definition parseDiceRoll :: "parser \<Rightarrow> node option \<Rightarrow> parser" where
  "parseDiceRoll pe rollTimes lexer = parseSimpleDiceRoll pe rollTimes lexer"

text \<open>The loop \<open>while (peekNextToken().type === Comma)\<close> of an argument or element list.\<close>

primrec parseListRest :: "nat \<Rightarrow> parser \<Rightarrow> node \<Rightarrow> parser" where
  "parseListRest 0 pe rootNode lexer = OutOfFuel"
| "parseListRest (Suc fuel) pe rootNode lexer =
     (if ttype (peekNextToken lexer) = CommaToken then
        and_then (pe (snd (getNextToken lexer))) (\<lambda>(child, lexer1).
          parseListRest fuel pe (addChild child rootNode) lexer1)
      else Returns (rootNode, lexer))"

definition parseList :: "nat \<Rightarrow> parser \<Rightarrow> token_type \<Rightarrow> node \<Rightarrow> parser" where
  "parseList fuel pe closing rootNode lexer =
     and_then
       (if ttype (peekNextToken lexer) \<noteq> closing then
          and_then (pe lexer) (\<lambda>(child, lexer1).
            parseListRest fuel pe (addChild child rootNode) lexer1)
        else Returns (rootNode, lexer))
       (\<lambda>(rootNode1, lexer1).
     and_then (expectAndConsume closing lexer1) (\<lambda>(t, lexer2).
       Returns (rootNode1, lexer2)))"

definition parseFunctionCall :: "nat \<Rightarrow> parser \<Rightarrow> parser" where
  "parseFunctionCall fuel pe lexer =
     and_then (expectAndConsume IdentifierToken lexer) (\<lambda>(functionName, lexer1).
     and_then (expectAndConsume ParenthesisOpenToken lexer1) (\<lambda>(t, lexer2).
       parseList fuel pe ParenthesisCloseToken
         (setAttribute ''name'' (Str (tvalue functionName)) (create Function)) lexer2))"

definition parseExpressionGroup :: "nat \<Rightarrow> parser \<Rightarrow> parser" where
  "parseExpressionGroup fuel pe lexer =
     parseList fuel pe BraceCloseToken (create Group) (snd (getNextToken lexer))"

definition parseFactor :: "nat \<Rightarrow> parser \<Rightarrow> parser" where
  "parseFactor fuel pe lexer =
     (case ttype (peekNextToken lexer) of
        IdentifierToken \<Rightarrow> parseFunctionCall fuel pe lexer
      | ParenthesisOpenToken \<Rightarrow>
          and_then (parseBracketedExpression pe lexer) (\<lambda>(rootNode, lexer1).
            if ttype (peekNextToken lexer1) = IdentifierToken
            then parseDiceRoll pe (Some rootNode) lexer1
            else Returns (rootNode, lexer1))
      | BraceOpenToken \<Rightarrow> parseExpressionGroup fuel pe lexer
      | IntegerToken \<Rightarrow>
          and_then (parseInteger lexer) (\<lambda>(number, lexer1).
            if ttype (peekNextToken lexer1) \<noteq> IdentifierToken
            then Returns (number, lexer1)
            else parseDiceRoll pe (Some number) lexer1)
      | _ \<Rightarrow> Throws ParseError)"

primrec parseTermRest :: "nat \<Rightarrow> nat \<Rightarrow> parser \<Rightarrow> node \<Rightarrow> parser" where
  "parseTermRest 0 fuel pe rootNode lexer = OutOfFuel"
| "parseTermRest (Suc n) fuel pe rootNode lexer =
     (case MultiOperatorMap (ttype (peekNextToken lexer)) of
        Some t \<Rightarrow>
          and_then (parseFactor fuel pe (snd (getNextToken lexer))) (\<lambda>(factor, lexer1).
            parseTermRest n fuel pe (addChild factor (addChild rootNode (create t))) lexer1)
      | None \<Rightarrow> Returns (rootNode, lexer))"

definition parseTerm :: "nat \<Rightarrow> parser \<Rightarrow> parser" where
  "parseTerm fuel pe lexer =
     and_then (parseFactor fuel pe lexer) (\<lambda>(rootNode, lexer1).
       parseTermRest fuel fuel pe rootNode lexer1)"

primrec parseSimpleExpressionRest :: "nat \<Rightarrow> nat \<Rightarrow> parser \<Rightarrow> node \<Rightarrow> parser" where
  "parseSimpleExpressionRest 0 fuel pe rootNode lexer = OutOfFuel"
| "parseSimpleExpressionRest (Suc n) fuel pe rootNode lexer =
     (case AddOperatorMap (ttype (peekNextToken lexer)) of
        Some t \<Rightarrow>
          and_then (parseTerm fuel pe (snd (getNextToken lexer))) (\<lambda>(term_node, lexer1).
            parseSimpleExpressionRest n fuel pe (addChild term_node (addChild rootNode (create t))) lexer1)
      | None \<Rightarrow> Returns (rootNode, lexer))"

definition parseSimpleExpression :: "nat \<Rightarrow> parser \<Rightarrow> parser" where
  "parseSimpleExpression fuel pe lexer =
     (let tokenType = ttype (peekNextToken lexer);
          lexer1 = (if AddOperatorMap tokenType \<noteq> None then snd (getNextToken lexer) else lexer)
      in and_then (parseTerm fuel pe lexer1) (\<lambda>(rootNode, lexer2).
           parseSimpleExpressionRest fuel fuel pe
             (if tokenType = MinusToken then addChild rootNode (create Negate) else rootNode) lexer2))"

definition parseExpressionStep :: "nat \<Rightarrow> parser \<Rightarrow> parser" where
  "parseExpressionStep fuel pe lexer =
     and_then (parseSimpleExpression fuel pe lexer) (\<lambda>(rootNode, lexer1).
       (case BooleanOperatorMap (ttype (peekNextToken lexer1)) of
          Some t \<Rightarrow>
            and_then (parseSimpleExpression fuel pe (snd (getNextToken lexer1))) (\<lambda>(rhs, lexer2).
              Returns (addChild rhs (addChild rootNode (create t)), lexer2))
        | None \<Rightarrow> Returns (rootNode, lexer1)))"

primrec parseExpression :: "nat \<Rightarrow> parser" where
  "parseExpression 0 = (\<lambda>lexer. OutOfFuel)"
| "parseExpression (Suc fuel) = parseExpressionStep fuel (parseExpression fuel)"

definition parse :: "nat \<Rightarrow> string \<Rightarrow> node outcome" where
  "parse fuel input = and_then (parseExpression fuel (lex input)) (\<lambda>(rootNode, lexer). Returns rootNode)"

section \<open>Notions used by the statements\<close>

text \<open>
  The nodes as the parser and \<open>createDiceRoll\<close> build them, the sequence of the next
  \<open>n\<close> draws of the random provider, and the contract of \<open>numberBetween\<close>: for integer
  bounds \<open>lo \<le> hi\<close> the draw is an integer between them.
\<close>

definition integerNode :: "rat \<Rightarrow> node" where
  "integerNode n = setAttribute ''value'' (Num n) (create Integer)"

definition diceSidesNode :: "val \<Rightarrow> node" where
  "diceSidesNode v = setAttribute ''value'' v (create DiceSides)"

definition diceNode :: "node \<Rightarrow> node \<Rightarrow> node" where
  "diceNode rollTimes sides = addChild sides (addChild rollTimes (create Dice))"

definition diceRollNode :: "rat \<Rightarrow> node" where
  "diceRollNode d =
     setAttribute ''drop'' (Str ''no'') (setAttribute ''value'' (Num d) (create DiceRoll))"

primrec draws :: "'s interpreter \<Rightarrow> nat \<Rightarrow> rat \<Rightarrow> rat \<Rightarrow> 's \<Rightarrow> rat list \<times> 's" where
  "draws this 0 lo hi r = ([], r)"
| "draws this (Suc n) lo hi r =
     (case random this r lo hi of (d, r1) \<Rightarrow>
        (case draws this n lo hi r1 of (ds, r2) \<Rightarrow> (d # ds, r2)))"

definition numberBetween_contract :: "'s interpreter \<Rightarrow> bool" where
  "numberBetween_contract this \<longleftrightarrow>
     (\<forall>r lo hi. lo \<in> \<int> \<and> hi \<in> \<int> \<and> lo \<le> hi \<longrightarrow>
        fst (random this r lo hi) \<in> \<int> \<and> lo \<le> fst (random this r lo hi)
        \<and> fst (random this r lo hi) \<le> hi)"

text \<open>
  The children of a rolled Dice node are DiceRoll nodes with numeric values (\<open>isRoll\<close>).
  \<open>rollValue\<close> is the face a roll shows, \<open>countedValue\<close> what \<open>evaluate\<close> returns for it
  (0 once it is dropped), and \<open>sortKey\<close> the key that the comparator of
  \<open>getSortedDiceRolls\<close> orders by. \<open>keepDirection\<close> is the direction that Keep and Drop ask
  for, from their \<open>type\<close> attribute, and \<open>keptPosition\<close> says whether the roll at
  position \<open>j\<close> of the sorted order is kept under the count \<open>c\<close>: the first \<open>c\<close> are kept
  by Keep, the others by Drop.
\<close>

definition rollValue :: "node \<Rightarrow> rat" where
  "rollValue die = (case getAttribute die ''value'' of Num q \<Rightarrow> q | _ \<Rightarrow> 0)"

definition countedValue :: "node \<Rightarrow> rat" where
  "countedValue die = (if getAttribute die ''drop'' = Str ''yes'' then 0 else rollValue die)"

definition isRoll :: "node \<Rightarrow> bool" where
  "isRoll die \<longleftrightarrow>
     ntype die = DiceRoll \<and> (case getAttribute die ''value'' of Num q \<Rightarrow> True | _ \<Rightarrow> False)"

definition sortKey :: "string \<Rightarrow> node \<Rightarrow> rat" where
  "sortKey direction die = (if direction = ''descending'' then - rollValue die else rollValue die)"

definition keepDirection :: "string \<Rightarrow> string" where
  "keepDirection ty = (if ty = ''lowest'' then ''ascending'' else ''descending'')"

definition keptPosition :: "node_type \<Rightarrow> rat \<Rightarrow> nat \<Rightarrow> bool" where
  "keptPosition modifier c j \<longleftrightarrow> (if modifier = Keep then of_nat j < c else \<not> of_nat j < c)"

text \<open>
  A random provider for the examples: it plays a script of numbers, one per call, and
  answers the lower bound when the script is exhausted or its number is not an integer
  of the requested range. The interpreter \<open>scripted\<close> has this provider and no
  functions.
\<close>

definition scripted_random :: "rat list \<Rightarrow> rat \<Rightarrow> rat \<Rightarrow> rat \<times> rat list" where
  "scripted_random script lo hi =
     (case script of
        [] \<Rightarrow> (lo, [])
      | d # rest \<Rightarrow> (if of_int \<lfloor>d\<rfloor> = d \<and> lo \<le> d \<and> d \<le> hi then d else lo, rest))"

definition scripted :: "rat list interpreter" where
  "scripted = \<lparr>function_table = Map.empty, random = scripted_random\<rparr>"

text \<open>A custom function for the examples: it answers 42 and leaves its node alone.\<close>

definition forty_two :: "'s function_definition" where
  "forty_two ev expression st = Returns (Num 42, expression, st)"

text \<open>
  The custom function of the README, \<open>Math.floor(interpreter.evaluate(functionNode.getChild(0),
  errors))\<close>: without a child \<open>getChild(0)\<close> is \<open>undefined\<close> and \<open>evaluate\<close> throws a
  \<open>TypeError\<close> on reading its type. \<open>flooring\<close> is the scripted interpreter with this
  function in its table.
\<close>

definition customFloor :: "'s function_definition" where
  "customFloor ev functionNode st =
     (if getChildCount functionNode < 1 then Throws TypeError
      else
        and_then (ev (getChild functionNode 0) st) (\<lambda>(v, c, st1).
        and_then (js_floor v) (\<lambda>q.
          Returns (q, setChild 0 c functionNode, st1))))"

definition flooring :: "rat list interpreter" where
  "flooring = scripted\<lparr>function_table := [''floor'' \<mapsto> customFloor]\<rparr>"

text \<open>
  Trees without a loop: \<open>loopFree\<close> holds of a tree with no Explode and no Reroll node,
  \<open>height\<close> is the number of nodes on its longest branch, and \<open>loopFreeWithin h\<close> is both
  at once, a loop-free tree of height at most \<open>h\<close>. A call \<open>ends\<close> when it does not run out
  of fuel: it returns a result, for which a condition may be asked, throws, or leaves
  the numeric model. An evaluator is terminating up to \<open>f\<close> when it ends on every
  loop-free tree of height at most \<open>f\<close> and hands back a tree that is loop-free within
  the same height; the functions of an interpreter are terminating when each of them,
  given such an evaluator, ends on every loop-free node one level higher and keeps it
  so. \<open>diceAt k h n\<close> says that \<open>k\<close> first-child steps lead from \<open>n\<close> to a Dice node, in a
  tree that is loop-free within \<open>h\<close>.
\<close>

primrec loopFreeWithin :: "nat \<Rightarrow> node \<Rightarrow> bool" where
  "loopFreeWithin 0 n = False"
| "loopFreeWithin (Suc h) n =
     (ntype n \<noteq> Explode \<and> ntype n \<noteq> Reroll \<and> list_all (loopFreeWithin h) (children n))"

fun loopFree :: "node \<Rightarrow> bool" where
  "loopFree (Node t cs as) = (t \<noteq> Explode \<and> t \<noteq> Reroll \<and> list_all loopFree cs)"

fun height :: "node \<Rightarrow> nat" where
  "height (Node t cs as) = Suc (foldr max (map height cs) 0)"

definition ends :: "('a \<Rightarrow> bool) \<Rightarrow> 'a outcome \<Rightarrow> bool" where
  "ends P out = (case out of Returns x \<Rightarrow> P x | OutOfFuel \<Rightarrow> False | _ \<Rightarrow> True)"

definition terminatingEvaluator :: "nat \<Rightarrow> 's evaluator \<Rightarrow> bool" where
  "terminatingEvaluator f ev \<longleftrightarrow>
     (\<forall>h n st. h \<le> f \<and> loopFreeWithin h n \<longrightarrow>
        ends (\<lambda>(v, n', st'). loopFreeWithin h n') (ev n st))"

definition terminating_functions :: "'s interpreter \<Rightarrow> bool" where
  "terminating_functions this \<longleftrightarrow>
     (\<forall>name f h ev e st.
        function_table this name = Some f \<and> terminatingEvaluator h ev \<and> loopFreeWithin (Suc h) e \<longrightarrow>
          ends (\<lambda>(v, e', st'). loopFreeWithin (Suc h) e') (f ev e st))"

primrec diceAt :: "nat \<Rightarrow> nat \<Rightarrow> node \<Rightarrow> bool" where
  "diceAt 0 h n = (loopFreeWithin h n \<and> ntype n = Dice)"
| "diceAt (Suc k) h n =
     (loopFreeWithin h n \<and> children n \<noteq> [] \<and> diceAt k (h - 1) (getChild n 0))"

section \<open>Basic facts\<close>

declare evaluate.simps(2) [simp del]

lemma evaluate_Suc:
  "evaluate (Suc fuel) this expression st =
     evaluateStep fuel this (evaluate fuel this) expression st"
  by (simp add: evaluate.simps(2))

lemma ntype_setAttribute [simp]: "ntype (setAttribute k v n) = ntype n"
  by (simp add: setAttribute_def)

lemma children_setAttribute [simp]: "children (setAttribute k v n) = children n"
  by (simp add: setAttribute_def)

lemma getAttribute_setAttribute [simp]:
  "getAttribute (setAttribute k v n) k' = (if k' = k then v else getAttribute n k')"
  by (simp add: getAttribute_def setAttribute_def update_conv')

lemma getChildCount_setAttribute [simp]: "getChildCount (setAttribute k v n) = getChildCount n"
  by (simp add: getChildCount_def)

lemma getChild_setAttribute [simp]: "getChild (setAttribute k v n) i = getChild n i"
  by (simp add: getChild_def)

lemma math_round_of_int [simp]: "math_round (of_int z) = of_int z"
proof -
  have "\<lfloor>(of_int z :: rat) + 1 / 2\<rfloor> = z" by linarith
  then show ?thesis by (simp add: math_round_def)
qed

lemma evaluate_integerNode:
  "evaluate (Suc fuel) this (integerNode n) st = Returns (Num n, integerNode n, st)"
  by (simp add: evaluate_Suc evaluateStep_def evaluateCase_def integerNode_def create_def
      setAttribute_def getAttribute_def)

lemma evaluate_diceSidesNode:
  "evaluate (Suc fuel) this (diceSidesNode v) st = Returns (v, diceSidesNode v, st)"
  by (simp add: evaluate_Suc evaluateStep_def evaluateCase_def diceSidesNode_def create_def
      setAttribute_def getAttribute_def)

lemma evaluate_diceRollNode:
  "evaluate (Suc fuel) this (diceRollNode d) st = Returns (Num d, diceRollNode d, st)"
  by (simp add: evaluate_Suc evaluateStep_def evaluateDiceRoll_def diceRollNode_def create_def)

lemma createDiceRoll_sides:
  "createDiceRoll this (evaluate (Suc fuel) this) (Inl (diceSidesNode (Num (of_int z)))) st =
     Returns (diceRollNode (fst (random this (rng st) 1 (of_int z))),
              Inl (diceSidesNode (Num (of_int z))),
              st\<lparr>rng := snd (random this (rng st) 1 (of_int z))\<rparr>)"
  by (simp add: createDiceRoll_def createDiceRollValue_def evaluate_diceSidesNode diceRollNode_def
      split: prod.splits)
     (simp add: diceSidesNode_def)

lemma rollDice_sides:
  "rollDice this (evaluate (Suc fuel) this) n (Inl (diceSidesNode (Num (of_int z)))) e (Num t) st =
     Returns (Num (t + sum_list (fst (draws this n 1 (of_int z) (rng st)))),
              Node (ntype e) (children e @ map diceRollNode (fst (draws this n 1 (of_int z) (rng st))))
                (attrs e),
              st\<lparr>rng := snd (draws this n 1 (of_int z) (rng st))\<rparr>)"
proof (induction n arbitrary: e t st)
  case 0
  show ?case by simp
next
  case (Suc n)
  show ?case
    by (simp add: createDiceRoll_sides evaluate_diceRollNode Suc.IH addChild_def
        split: prod.splits)
qed

lemma length_draws [simp]: "length (fst (draws this n lo hi r)) = n"
  by (induction n arbitrary: r) (simp_all add: case_prod_beta)

lemma draws_in_range:
  assumes "numberBetween_contract this" and "lo \<in> \<int>" and "hi \<in> \<int>" and "lo \<le> hi"
  shows "d \<in> set (fst (draws this n lo hi r)) \<Longrightarrow> d \<in> \<int> \<and> lo \<le> d \<and> d \<le> hi"
proof (induction n arbitrary: r)
  case 0
  then show ?case by simp
next
  case (Suc n)
  have step: "fst (random this r lo hi) \<in> \<int> \<and> lo \<le> fst (random this r lo hi)
                \<and> fst (random this r lo hi) \<le> hi"
    using assms unfolding numberBetween_contract_def by blast
  from Suc.prems have "d = fst (random this r lo hi)
      \<or> d \<in> set (fst (draws this n lo hi (snd (random this r lo hi))))"
    by (simp add: case_prod_beta)
  then show ?case using step Suc.IH by blast
qed

lemma evaluate_diceNode:
  assumes "evaluate (Suc fuel) this c st = Returns (Num q, c', st1)"
  shows "evaluate (Suc (Suc fuel)) this (diceNode c (diceSidesNode (Num (of_int z)))) st =
     Returns (Num (sum_list (fst (draws this (nat \<lfloor>q + 1 / 2\<rfloor>) 1 (of_int z) (rng st1)))),
              Node Dice (map diceRollNode (fst (draws this (nat \<lfloor>q + 1 / 2\<rfloor>) 1 (of_int z) (rng st1))))
                [(''sides'', Num (of_int z)),
                 (''value'', Num (sum_list (fst (draws this (nat \<lfloor>q + 1 / 2\<rfloor>) 1 (of_int z) (rng st1)))))],
              st1\<lparr>rng := snd (draws this (nat \<lfloor>q + 1 / 2\<rfloor>) 1 (of_int z) (rng st1))\<rparr>)"
proof -
  have dice: "diceNode c (diceSidesNode (Num (of_int z))) = Node Dice [c, diceSidesNode (Num (of_int z))] []"
    by (simp add: diceNode_def addChild_def create_def)
  have "evaluateDice this (evaluate (Suc fuel) this) (Node Dice [c, diceSidesNode (Num (of_int z))] []) st =
     Returns (Num (sum_list (fst (draws this (nat \<lfloor>q + 1 / 2\<rfloor>) 1 (of_int z) (rng st1)))),
              Node Dice (map diceRollNode (fst (draws this (nat \<lfloor>q + 1 / 2\<rfloor>) 1 (of_int z) (rng st1))))
                [(''sides'', Num (of_int z))],
              st1\<lparr>rng := snd (draws this (nat \<lfloor>q + 1 / 2\<rfloor>) 1 (of_int z) (rng st1))\<rparr>)"
    by (simp add: evaluateDice_def expectChildCount_def getChildCount_def getChild_def assms
        evaluate_diceSidesNode rollDice_sides clearChildren_def setAttribute_def math_round_def)
  then show ?thesis
    unfolding dice
    by (simp add: evaluate_Suc [of "Suc fuel"] evaluateStep_def evaluateCase_def getAttribute_def
        setAttribute_def)
qed


lemma evaluate_diceNode_contract:
  assumes ev: "evaluate (Suc fuel) this c st = Returns (Num q, c', st1)"
    and contract: "numberBetween_contract this" and s: "1 \<le> s"
  shows "\<exists>ds r. evaluate (Suc (Suc fuel)) this (diceNode c (diceSidesNode (Num (of_nat s)))) st
                 = Returns (Num (sum_list ds),
                            Node Dice (map diceRollNode ds)
                              [(''sides'', Num (of_nat s)), (''value'', Num (sum_list ds))],
                            st1\<lparr>rng := r\<rparr>)
               \<and> length ds = nat \<lfloor>q + 1 / 2\<rfloor>
               \<and> (\<forall>d \<in> set ds. d \<in> \<int> \<and> 1 \<le> d \<and> d \<le> of_nat s)"
proof -
  define ds where "ds = fst (draws this (nat \<lfloor>q + 1 / 2\<rfloor>) 1 (of_nat s) (rng st1))"
  define r where "r = snd (draws this (nat \<lfloor>q + 1 / 2\<rfloor>) 1 (of_nat s) (rng st1))"
  have run: "evaluate (Suc (Suc fuel)) this (diceNode c (diceSidesNode (Num (of_nat s)))) st
                 = Returns (Num (sum_list ds),
                            Node Dice (map diceRollNode ds)
                              [(''sides'', Num (of_nat s)), (''value'', Num (sum_list ds))],
                            st1\<lparr>rng := r\<rparr>)"
    using evaluate_diceNode [OF ev, of "int s"] unfolding ds_def r_def by simp
  have len: "length ds = nat \<lfloor>q + 1 / 2\<rfloor>"
    unfolding ds_def by simp
  have le: "(1::rat) \<le> of_nat s" using s by simp
  have range: "\<forall>d \<in> set ds. d \<in> \<int> \<and> 1 \<le> d \<and> d \<le> of_nat s"
    unfolding ds_def using draws_in_range [OF contract Ints_1 Ints_of_nat le] by blast
  from run len range show ?thesis by blast
qed


section \<open>Rolling dice\<close>

text \<open>
  Claim C1. With a random provider that honours the contract of \<open>numberBetween\<close> and
  \<open>s \<ge> 1\<close> sides, evaluating the dice node \<open>n\<close>d\<open>s\<close> returns the sum of the rolled
  values and leaves a Dice node with exactly \<open>n\<close> DiceRoll children, each an integer
  from 1 to \<open>s\<close>. For any count operand that evaluates to the number \<open>q\<close>, the number
  of rolls is \<open>q\<close> rounded to the nearest integer, ties upwards: 2.5 rounds to 3, and
  \<open>(2/5)d6\<close> leaves a Dice node with no children and the total 0.
\<close>

theorem evaluateDice_rolls_rounded_count:
  assumes "numberBetween_contract this" and "1 \<le> s"
  shows "(\<exists>ds r. evaluate (Suc (Suc fuel)) this
                   (diceNode (integerNode (of_nat n)) (diceSidesNode (Num (of_nat s)))) st
                 = Returns (Num (sum_list ds),
                            Node Dice (map diceRollNode ds)
                              [(''sides'', Num (of_nat s)), (''value'', Num (sum_list ds))],
                            st\<lparr>rng := r\<rparr>)
               \<and> length ds = n \<and> (\<forall>d \<in> set ds. d \<in> \<int> \<and> 1 \<le> d \<and> d \<le> of_nat s))
       \<and> (\<forall>c q c' st1. evaluate (Suc fuel) this c st = Returns (Num q, c', st1) \<longrightarrow>
            (\<exists>ds r. evaluate (Suc (Suc fuel)) this (diceNode c (diceSidesNode (Num (of_nat s)))) st
                   = Returns (Num (sum_list ds),
                              Node Dice (map diceRollNode ds)
                                [(''sides'', Num (of_nat s)), (''value'', Num (sum_list ds))],
                              st1\<lparr>rng := r\<rparr>)
                 \<and> length ds = nat \<lfloor>q + 1 / 2\<rfloor>
                 \<and> (\<forall>d \<in> set ds. d \<in> \<int> \<and> 1 \<le> d \<and> d \<le> of_nat s)))
       \<and> math_round (5 / 2) = 3
       \<and> evaluate (Suc (Suc (Suc fuel))) this
            (diceNode (Node Divide [integerNode 2, integerNode 5] []) (diceSidesNode (Num 6))) st
          = Returns (Num 0, Node Dice [] [(''sides'', Num 6), (''value'', Num 0)], st)"
proof (intro conjI allI impI)
  have count: "nat \<lfloor>(of_nat n :: rat) + 1 / 2\<rfloor> = n"
  proof -
    have "\<lfloor>(of_int (int n) :: rat) + 1 / 2\<rfloor> = int n" by linarith
    then show ?thesis by simp
  qed
  show "\<exists>ds r. evaluate (Suc (Suc fuel)) this
                   (diceNode (integerNode (of_nat n)) (diceSidesNode (Num (of_nat s)))) st
                 = Returns (Num (sum_list ds),
                            Node Dice (map diceRollNode ds)
                              [(''sides'', Num (of_nat s)), (''value'', Num (sum_list ds))],
                            st\<lparr>rng := r\<rparr>)
               \<and> length ds = n \<and> (\<forall>d \<in> set ds. d \<in> \<int> \<and> 1 \<le> d \<and> d \<le> of_nat s)"
    using evaluate_diceNode_contract [OF evaluate_integerNode assms, of fuel "of_nat n" st]
    unfolding count .
next
  fix c q c' st1
  assume "evaluate (Suc fuel) this c st = Returns (Num q, c', st1)"
  then show "\<exists>ds r. evaluate (Suc (Suc fuel)) this (diceNode c (diceSidesNode (Num (of_nat s)))) st
                   = Returns (Num (sum_list ds),
                              Node Dice (map diceRollNode ds)
                                [(''sides'', Num (of_nat s)), (''value'', Num (sum_list ds))],
                              st1\<lparr>rng := r\<rparr>)
                 \<and> length ds = nat \<lfloor>q + 1 / 2\<rfloor>
                 \<and> (\<forall>d \<in> set ds. d \<in> \<int> \<and> 1 \<le> d \<and> d \<le> of_nat s)"
    by (rule evaluate_diceNode_contract [OF _ assms])
next
  have "\<lfloor>(5 / 2 :: rat) + 1 / 2\<rfloor> = 3" by simp
  then show "math_round (5 / 2) = 3" by (simp add: math_round_def)
next
  have quotient: "evaluate (Suc (Suc fuel)) this (Node Divide [integerNode 2, integerNode 5] []) st
      = Returns (Num (2 / 5), Node Divide [integerNode 2, integerNode 5] [(''value'', Num (2 / 5))], st)"
    by (simp add: evaluate_Suc [of "Suc fuel"] evaluateStep_def evaluateCase_def binaryOperation_def
        expectChildCount_def getChildCount_def getChild_def evaluate_integerNode setChild_def
        getAttribute_def setAttribute_def)
  have zero: "nat \<lfloor>(2 / 5 :: rat) + 1 / 2\<rfloor> = 0" by simp
  show "evaluate (Suc (Suc (Suc fuel))) this
            (diceNode (Node Divide [integerNode 2, integerNode 5] []) (diceSidesNode (Num 6))) st
          = Returns (Num 0, Node Dice [] [(''sides'', Num 6), (''value'', Num 0)], st)"
    using evaluate_diceNode [OF quotient, of 6] by (simp add: zero)
qed

section \<open>The success and failure counters\<close>

text \<open>
  Claim C9. Whatever the expression and the random provider, a result that
  \<open>interpret\<close> returns has 0 successes and 0 failures: \<open>countSuccesses\<close> and
  \<open>countFailures\<close> are constant. The example is \<open>4d20>=15\<close>.
\<close>

theorem interpret_counts_are_zero:
  assumes "interpret_expression fuel this expression r = Returns (res, r')"
  shows "successes res = 0 \<and> fails res = 0
         \<and> countSuccesses (result_tree res) (result_errors res) = 0
         \<and> countFailures (result_tree res) (result_errors res) = 0"
proof (cases "evaluate fuel this (copy expression) \<lparr>rng = r, errors = []\<rparr>")
  case (Returns x)
  obtain tot expr1 st1 where "x = (tot, expr1, st1)" by (cases x) auto
  with Returns assms show ?thesis
    by (auto simp: interpret_expression_def countSuccesses_def countFailures_def)
qed (use assms in \<open>simp_all add: interpret_expression_def\<close>)


lemma scripted_contract: "numberBetween_contract scripted"
  unfolding numberBetween_contract_def scripted_def scripted_random_def
  by (auto split: list.splits)

theorem evaluateDice_rolls_rounded_count_witness:
  "numberBetween_contract scripted \<and> (1::nat) \<le> 6
   \<and> (\<exists>ds r. evaluate (Suc (Suc 0)) scripted
                (diceNode (integerNode (of_nat 3)) (diceSidesNode (Num (of_nat 6))))
                \<lparr>rng = [3, 5, 1], errors = []\<rparr>
              = Returns (Num (sum_list ds),
                         Node Dice (map diceRollNode ds)
                           [(''sides'', Num (of_nat 6)), (''value'', Num (sum_list ds))],
                         \<lparr>rng = [3, 5, 1], errors = []\<rparr>\<lparr>rng := r\<rparr>)
            \<and> length ds = 3 \<and> (\<forall>d \<in> set ds. d \<in> \<int> \<and> 1 \<le> d \<and> d \<le> of_nat 6))
   \<and> evaluate (Suc (Suc (Suc 0))) scripted
        (diceNode (Node Divide [integerNode 2, integerNode 5] []) (diceSidesNode (Num 6)))
        \<lparr>rng = [3, 5, 1], errors = []\<rparr>
      = Returns (Num 0, Node Dice [] [(''sides'', Num 6), (''value'', Num 0)],
                 \<lparr>rng = [3, 5, 1], errors = []\<rparr>)"
proof -
  have six: "(1::nat) \<le> 6" by simp
  show ?thesis
    using evaluateDice_rolls_rounded_count
      [OF scripted_contract six, of 0 3 "\<lparr>rng = [3, 5, 1], errors = []\<rparr>"]
      scripted_contract six
    by blast
qed

lemma sample_3d6:
  "evaluate 2 scripted (diceNode (integerNode 3) (diceSidesNode (Num 6))) \<lparr>rng = [3, 5, 1], errors = []\<rparr>
     = Returns (Num 9, Node Dice [diceRollNode 3, diceRollNode 5, diceRollNode 1]
                  [(''sides'', Num 6), (''value'', Num 9)], \<lparr>rng = [], errors = []\<rparr>)"
  by code_simp

theorem interpret_counts_are_zero_witness:
  "interpret_expression 3 scripted
     (Node GreaterOrEqual [diceNode (integerNode 4) (diceSidesNode (Num 20)), integerNode 15] [])
     [17, 20, 3, 16]
   = Returns (\<lparr>result_tree =
                 Node GreaterOrEqual
                   [Node Dice [diceRollNode 17, diceRollNode 20, diceRollNode 3, diceRollNode 16]
                      [(''sides'', Num 20), (''value'', Num 56)],
                    integerNode 15]
                   [(''value'', Num 0)],
               result_total = Num 0, successes = 0, fails = 0, result_errors = []\<rparr>, [])
   \<and> successes \<lparr>result_tree =
                 Node GreaterOrEqual
                   [Node Dice [diceRollNode 17, diceRollNode 20, diceRollNode 3, diceRollNode 16]
                      [(''sides'', Num 20), (''value'', Num 56)],
                    integerNode 15]
                   [(''value'', Num 0)],
               result_total = Num 0, successes = 0, fails = 0, result_errors = []\<rparr> = 0"
proof -
  have run: "interpret_expression 3 scripted
     (Node GreaterOrEqual [diceNode (integerNode 4) (diceSidesNode (Num 20)), integerNode 15] [])
     [17, 20, 3, 16]
   = Returns (\<lparr>result_tree =
                 Node GreaterOrEqual
                   [Node Dice [diceRollNode 17, diceRollNode 20, diceRollNode 3, diceRollNode 16]
                      [(''sides'', Num 20), (''value'', Num 56)],
                    integerNode 15]
                   [(''value'', Num 0)],
               result_total = Num 0, successes = 0, fails = 0, result_errors = []\<rparr>, [])"
    by code_simp
  show ?thesis
    using interpret_counts_are_zero [OF run] run by simp
qed

section \<open>Limits on rolls and sides\<close>

text \<open>
  Claim C3. The claim: a roll count above \<open>maxRollTimes\<close> (or a side count above
  \<open>maxDiceSides\<close>) appends an error message and the roll is not made. The interpreter
  takes no configuration and \<open>evaluateDice\<close> checks neither number: \<open>50d10\<close> is
  rolled in full, the Dice node gains 50 DiceRoll children and the list of errors stays
  empty.
\<close>

theorem no_roll_limit_50d10:
  "and_then (parse 4 ''50d10'') (\<lambda>ast.
     and_then (interpret_expression 2 scripted ast []) (\<lambda>(res, r).
       Returns (ntype (result_tree res), getChildCount (result_tree res),
                list_all (\<lambda>c. ntype c = DiceRoll) (children (result_tree res)),
                result_total res, result_errors res)))
   = Returns (Dice, 50, True, Num 50, [])"
  by code_simp

section \<open>Memoized values\<close>

text \<open>
  Claim C4. The claim: evaluating a node whose value has been computed is a no-op. The
  test \<open>!expression.getAttribute("value")\<close> takes the computed value 0 for a missing
  one. The dice \<open>2dF\<close> that rolled 1 and -1 have the total 0; a second \<open>evaluate\<close> on
  that node reads its two rolls as the count and the sides, and replaces them by one new
  roll. The same happens when Keep evaluates its dice again, and with no rolls at all
  (\<open>(2/5)d6\<close>) the second evaluation throws.
\<close>

theorem zero_total_dice_rolled_again:
  "evaluate 2 scripted (diceNode (integerNode 2) (diceSidesNode (Str ''fate'')))
     \<lparr>rng = [1, - 1, 1], errors = []\<rparr>
   = Returns (Num 0,
              Node Dice [diceRollNode 1, diceRollNode (- 1)]
                [(''sides'', Str ''fate''), (''value'', Num 0)],
              \<lparr>rng = [1], errors = []\<rparr>)
   \<and> evaluate 2 scripted
       (Node Dice [diceRollNode 1, diceRollNode (- 1)]
          [(''sides'', Str ''fate''), (''value'', Num 0)])
       \<lparr>rng = [1], errors = []\<rparr>
     = Returns (Num 1,
                Node Dice [diceRollNode 1] [(''sides'', Num (- 1)), (''value'', Num 1)],
                \<lparr>rng = [], errors = []\<rparr>)
   \<and> evaluate 3 scripted
       (Node Keep [diceNode (integerNode 2) (diceSidesNode (Str ''fate''))] [(''type'', Str ''highest'')])
       \<lparr>rng = [1, - 1, 1], errors = []\<rparr>
     = Returns (Num 1,
                Node Keep [Node Dice [diceRollNode 1] [(''sides'', Num (- 1)), (''value'', Num 1)]]
                  [(''type'', Str ''highest''), (''value'', Num 1)],
                \<lparr>rng = [], errors = []\<rparr>)
   \<and> evaluate 4 scripted
       (Node Keep [diceNode (Node Divide [integerNode 2, integerNode 5] []) (diceSidesNode (Num 6))]
          [(''type'', Str ''highest'')])
       \<lparr>rng = [], errors = []\<rparr>
     = Throws (ExpectedChildCount Dice 2 0)"
  by code_simp

section \<open>Operator precedence\<close>

text \<open>
  Claim C2, as stated: \<open>2*3**2\<close> evaluates to 18. It evaluates to 36.
\<close>

theorem exponent_precedence_counterexample:
  "and_then (parse 4 ''2*3**2'') (\<lambda>ast.
     and_then (interpret_expression 3 scripted ast []) (\<lambda>(res, r). Returns (result_total res)))
   = Returns (Num 36)
   \<and> and_then (parse 4 ''2*3**2'') (\<lambda>ast.
     and_then (interpret_expression 3 scripted ast []) (\<lambda>(res, r). Returns (result_total res)))
   \<noteq> Returns (Num 18)"
  by code_simp

lemma parse_2_3_2:
  "parse 4 ''2*3**2'' =
     Returns (Node Exponent [Node Multiply [integerNode 2, integerNode 3] [], integerNode 2] [])"
  by code_simp

lemma copy_is_structural_identity: "copy n = n"
  by (induction n) (simp add: map_idI)

lemma evaluate_2_3_2:
  "evaluate (Suc (Suc (Suc fuel))) this
     (Node Exponent [Node Multiply [integerNode 2, integerNode 3] [], integerNode 2] []) st =
   Returns (Num 36,
            Node Exponent [Node Multiply [integerNode 2, integerNode 3] [(''value'', Num 6)], integerNode 2]
              [(''value'', Num 36)], st)"
proof -
  have product: "evaluate (Suc (Suc fuel)) this (Node Multiply [integerNode 2, integerNode 3] []) st
      = Returns (Num 6, Node Multiply [integerNode 2, integerNode 3] [(''value'', Num 6)], st)"
    by (simp add: evaluate_Suc [of "Suc fuel"] evaluateStep_def evaluateCase_def binaryOperation_def
        expectChildCount_def getChildCount_def getChild_def evaluate_integerNode setChild_def
        getAttribute_def setAttribute_def)
  show ?thesis
    by (simp add: evaluate_Suc [of "Suc (Suc fuel)"] evaluateStep_def evaluateCase_def
        binaryOperation_def expectChildCount_def getChildCount_def getChild_def product
        evaluate_integerNode setChild_def getAttribute_def setAttribute_def)
qed

text \<open>
  Claim C2, amended. \<open>MultiOperatorMap\<close> holds \<open>**\<close> beside \<open>*\<close>, \<open>/\<close> and \<open>%\<close>,
  and \<open>parseTerm\<close> folds all four to the left: for every random provider and function
  table \<open>2*3**2\<close> is parsed as \<open>(2*3)**2\<close> and evaluates to 36, and \<open>2**3*2\<close> is
  parsed as \<open>(2**3)*2\<close>.
\<close>

theorem exponent_shares_multiply_precedence:
  "and_then (parse 4 ''2*3**2'') (\<lambda>ast.
     and_then (interpret_expression (Suc (Suc (Suc fuel))) this ast r) (\<lambda>(res, r1).
       Returns (result_total res)))
   = Returns (Num 36)
   \<and> parse 4 ''2*3**2'' =
       Returns (Node Exponent [Node Multiply [integerNode 2, integerNode 3] [], integerNode 2] [])
   \<and> parse 4 ''2**3*2'' =
       Returns (Node Multiply [Node Exponent [integerNode 2, integerNode 3] [], integerNode 2] [])"
proof -
  have other: "parse 4 ''2**3*2'' =
       Returns (Node Multiply [Node Exponent [integerNode 2, integerNode 3] [], integerNode 2] [])"
    by code_simp
  show ?thesis
    by (simp add: parse_2_3_2 other interpret_expression_def copy_is_structural_identity evaluate_2_3_2)
qed

section \<open>The shared function table\<close>

text \<open>
  Claim C10. The constructor stores a reference to the module's default table and
  assigns the custom functions onto that table. So of two interpreters constructed one
  after the other, a function given only to the first is in the table the second
  consults, and a Function node evaluated by the second calls it.
\<close>

theorem constructor_extends_shared_default_table:
  assumes first: "new_DiceInterpreter (Some custom1) rnd1 default_random heap = (first, heap1)"
    and second: "new_DiceInterpreter custom2 rnd2 default_random heap1 = (second, heap2)"
    and supplied: "custom1 name = Some f"
    and absent: "\<forall>c. custom2 = Some c \<longrightarrow> c name = None"
  shows "functions_ref first = DefaultFunctionDefinitions
       \<and> functions_ref second = functions_ref first
       \<and> heap1 DefaultFunctionDefinitions = heap DefaultFunctionDefinitions ++ custom1
       \<and> function_table (interpreter_in heap2 second) name = Some f
       \<and> function_table (interpreter_in heap2 first) name = Some f
       \<and> evaluateFunction (interpreter_in heap2 second) ev
            (Node Function cs [(''name'', Str name)]) st
          = f ev (Node Function cs [(''name'', Str name)]) st"
proof -
  have h1: "heap1 = heap(DefaultFunctionDefinitions := heap DefaultFunctionDefinitions ++ custom1)"
    and r1: "functions_ref first = DefaultFunctionDefinitions"
    using first by (auto simp: new_DiceInterpreter_def object_assign_def Let_def)
  have h2: "heap2 = heap1(DefaultFunctionDefinitions := object_assign (heap1 DefaultFunctionDefinitions) custom2)"
    and r2: "functions_ref second = DefaultFunctionDefinitions"
    using second by (auto simp: new_DiceInterpreter_def Let_def)
  have in1: "heap1 DefaultFunctionDefinitions name = Some f"
    using supplied by (simp add: h1 map_add_def)
  have in2: "heap2 DefaultFunctionDefinitions name = Some f"
  proof (cases custom2)
    case None
    then show ?thesis using in1 by (simp add: h2 object_assign_def)
  next
    case (Some c)
    with absent have "c name = None" by simp
    with Some in1 show ?thesis by (simp add: h2 object_assign_def map_add_def)
  qed
  show ?thesis
    using r1 r2 in2 h1
    by (simp add: interpreter_in_def evaluateFunction_def getAttribute_def)
qed

theorem constructor_extends_shared_default_table_witness:
  "function_table
     (interpreter_in
        (snd (new_DiceInterpreter None None scripted_random
               (snd (new_DiceInterpreter (Some [''answer'' \<mapsto> forty_two]) None scripted_random
                      (\<lambda>t. Map.empty)))))
        (fst (new_DiceInterpreter None None scripted_random
               (snd (new_DiceInterpreter (Some [''answer'' \<mapsto> forty_two]) None scripted_random
                      (\<lambda>t. Map.empty))))))
     ''answer''
   = Some forty_two
   \<and> evaluate 1
       (interpreter_in
        (snd (new_DiceInterpreter None None scripted_random
               (snd (new_DiceInterpreter (Some [''answer'' \<mapsto> forty_two]) None scripted_random
                      (\<lambda>t. Map.empty)))))
        (fst (new_DiceInterpreter None None scripted_random
               (snd (new_DiceInterpreter (Some [''answer'' \<mapsto> forty_two]) None scripted_random
                      (\<lambda>t. Map.empty))))))
       (Node Function [] [(''name'', Str ''answer'')]) \<lparr>rng = [], errors = []\<rparr>
     = Returns (Num 42, Node Function [] [(''name'', Str ''answer''), (''value'', Num 42)],
                \<lparr>rng = [], errors = []\<rparr>)"
proof -
  let ?h0 = "(\<lambda>t. Map.empty) :: rat list heap"
  let ?c1 = "new_DiceInterpreter (Some [''answer'' \<mapsto> forty_two]) None scripted_random ?h0"
  let ?c2 = "new_DiceInterpreter None None scripted_random (snd ?c1)"
  have a: "?c1 = (fst ?c1, snd ?c1)" by simp
  have b: "?c2 = (fst ?c2, snd ?c2)" by simp
  have c: "[''answer'' \<mapsto> forty_two] ''answer'' = Some (forty_two :: rat list function_definition)" by simp
  have d: "\<forall>c. (None :: rat list function_definition_list option) = Some c \<longrightarrow> c ''answer'' = None" by simp
  note inst = constructor_extends_shared_default_table [OF a b c d]
  from inst have table: "function_table (interpreter_in (snd ?c2) (fst ?c2)) ''answer'' = Some forty_two"
    by blast
  have call: "evaluateFunction (interpreter_in (snd ?c2) (fst ?c2)) ev
            (Node Function [] [(''name'', Str ''answer'')]) \<lparr>rng = [], errors = []\<rparr>
          = forty_two ev (Node Function [] [(''name'', Str ''answer'')]) \<lparr>rng = [], errors = []\<rparr>"
    for ev
    using inst [of ev] by blast
  have run: "evaluate 1 (interpreter_in (snd ?c2) (fst ?c2))
       (Node Function [] [(''name'', Str ''answer'')]) \<lparr>rng = [], errors = []\<rparr>
     = Returns (Num 42, Node Function [] [(''name'', Str ''answer''), (''value'', Num 42)],
                \<lparr>rng = [], errors = []\<rparr>)"
    unfolding One_nat_def evaluate_Suc
    by (simp add: evaluateStep_def evaluateCase_def call forty_two_def getAttribute_def setAttribute_def)
  from table run show ?thesis by simp
qed


section \<open>interpret works on a copy\<close>

lemma interpret_ref_Returns:
  assumes "interpret_ref fuel this expression (store, r) = Returns (res, store1, r1)"
  shows "\<exists>tot expr1 st1.
           evaluate fuel this (store ! expression) \<lparr>rng = r, errors = []\<rparr> = Returns (tot, expr1, st1)
         \<and> store1 = store @ [expr1] \<and> tree_ref res = length store \<and> total_ref res = tot
         \<and> errors_ref res = errors st1 \<and> r1 = rng st1"
proof (cases "evaluate fuel this (store ! expression) \<lparr>rng = r, errors = []\<rparr>")
  case (Returns x)
  obtain tot expr1 st1 where x: "x = (tot, expr1, st1)" by (cases x) auto
  from assms Returns x show ?thesis
    by (auto simp: interpret_ref_def copy_ref_def copy_is_structural_identity)
qed (use assms in \<open>simp_all add: interpret_ref_def copy_ref_def copy_is_structural_identity\<close>)

text \<open>
  Claim C6. \<open>interpret\<close> copies the tree it is given and evaluates the copy. After
  two successive calls on the same parsed tree, the tree is as it was and so is every
  tree that was allocated before; each result refers to a tree of its own, neither is
  the input, and the second call leaves the tree of the first result alone. Both
  results are evaluations of the original tree, from the state in which the random
  provider was at each call, so their dice may differ (in the example they roll 2 and
  then 5).
\<close>

theorem interpret_evaluates_a_copy:
  assumes first: "interpret_ref fuel this expression (store, r) = Returns (res1, store1, r1)"
    and second: "interpret_ref fuel this expression (store1, r1) = Returns (res2, store2, r2)"
    and allocated: "expression < length store"
  shows "store1 ! expression = store ! expression
       \<and> store2 ! expression = store ! expression
       \<and> (\<forall>i < length store. store2 ! i = store ! i)
       \<and> tree_ref res1 \<noteq> expression \<and> tree_ref res2 \<noteq> expression
       \<and> tree_ref res1 \<noteq> tree_ref res2
       \<and> store2 ! tree_ref res1 = store1 ! tree_ref res1
       \<and> (\<exists>st. evaluate fuel this (store ! expression) \<lparr>rng = r, errors = []\<rparr>
                  = Returns (total_ref res1, store2 ! tree_ref res1, st) \<and> rng st = r1)
       \<and> (\<exists>st. evaluate fuel this (store ! expression) \<lparr>rng = r1, errors = []\<rparr>
                  = Returns (total_ref res2, store2 ! tree_ref res2, st) \<and> rng st = r2)"
proof -
  from interpret_ref_Returns [OF first] obtain tot1 e1 st1 where
    run1: "evaluate fuel this (store ! expression) \<lparr>rng = r, errors = []\<rparr> = Returns (tot1, e1, st1)"
    and s1: "store1 = store @ [e1]" and t1: "tree_ref res1 = length store"
    and v1: "total_ref res1 = tot1" and g1: "r1 = rng st1"
    by blast
  have same: "store1 ! expression = store ! expression"
    using allocated by (simp add: s1 nth_append)
  from interpret_ref_Returns [OF second] obtain tot2 e2 st2 where
    run2: "evaluate fuel this (store1 ! expression) \<lparr>rng = r1, errors = []\<rparr> = Returns (tot2, e2, st2)"
    and s2: "store2 = store1 @ [e2]" and t2: "tree_ref res2 = length store1"
    and v2: "total_ref res2 = tot2" and g2: "r2 = rng st2"
    by blast
  have frame: "\<forall>i < length store. store2 ! i = store ! i"
    by (simp add: s1 s2 nth_append)
  have own1: "store2 ! tree_ref res1 = e1" by (simp add: s1 s2 t1 nth_append)
  have own2: "store2 ! tree_ref res2 = e2" by (simp add: s1 s2 t2 nth_append)
  have kept: "store2 ! tree_ref res1 = store1 ! tree_ref res1" by (simp add: s1 s2 t1 nth_append)
  have ex1: "\<exists>st. evaluate fuel this (store ! expression) \<lparr>rng = r, errors = []\<rparr>
                  = Returns (total_ref res1, store2 ! tree_ref res1, st) \<and> rng st = r1"
    using run1 own1 v1 g1 by simp
  have ex2: "\<exists>st. evaluate fuel this (store ! expression) \<lparr>rng = r1, errors = []\<rparr>
                  = Returns (total_ref res2, store2 ! tree_ref res2, st) \<and> rng st = r2"
    using run2 own2 v2 g2 same by simp
  have distinct: "tree_ref res1 \<noteq> expression \<and> tree_ref res2 \<noteq> expression
       \<and> tree_ref res1 \<noteq> tree_ref res2"
    using allocated by (simp add: t1 t2 s1)
  from same frame allocated kept ex1 ex2 distinct show ?thesis by simp
qed

theorem interpret_evaluates_a_copy_witness:
  "interpret_ref 2 scripted 0 ([diceNode (integerNode 1) (diceSidesNode (Num 6))], [2, 5])
     = Returns (\<lparr>tree_ref = 1, total_ref = Num 2, successes_ref = 0, fails_ref = 0, errors_ref = []\<rparr>,
                [diceNode (integerNode 1) (diceSidesNode (Num 6)),
                 Node Dice [diceRollNode 2] [(''sides'', Num 6), (''value'', Num 2)]],
                [5])
   \<and> interpret_ref 2 scripted 0
       ([diceNode (integerNode 1) (diceSidesNode (Num 6)),
         Node Dice [diceRollNode 2] [(''sides'', Num 6), (''value'', Num 2)]], [5])
     = Returns (\<lparr>tree_ref = 2, total_ref = Num 5, successes_ref = 0, fails_ref = 0, errors_ref = []\<rparr>,
                [diceNode (integerNode 1) (diceSidesNode (Num 6)),
                 Node Dice [diceRollNode 2] [(''sides'', Num 6), (''value'', Num 2)],
                 Node Dice [diceRollNode 5] [(''sides'', Num 6), (''value'', Num 5)]],
                [])
   \<and> [diceNode (integerNode 1) (diceSidesNode (Num 6)),
       Node Dice [diceRollNode 2] [(''sides'', Num 6), (''value'', Num 2)],
       Node Dice [diceRollNode 5] [(''sides'', Num 6), (''value'', Num 5)]] ! 0
     = [diceNode (integerNode 1) (diceSidesNode (Num 6))] ! 0"
proof -
  have first: "interpret_ref 2 scripted 0 ([diceNode (integerNode 1) (diceSidesNode (Num 6))], [2, 5])
     = Returns (\<lparr>tree_ref = 1, total_ref = Num 2, successes_ref = 0, fails_ref = 0, errors_ref = []\<rparr>,
                [diceNode (integerNode 1) (diceSidesNode (Num 6)),
                 Node Dice [diceRollNode 2] [(''sides'', Num 6), (''value'', Num 2)]],
                [5])"
    by code_simp
  have second: "interpret_ref 2 scripted 0
       ([diceNode (integerNode 1) (diceSidesNode (Num 6)),
         Node Dice [diceRollNode 2] [(''sides'', Num 6), (''value'', Num 2)]], [5])
     = Returns (\<lparr>tree_ref = 2, total_ref = Num 5, successes_ref = 0, fails_ref = 0, errors_ref = []\<rparr>,
                [diceNode (integerNode 1) (diceSidesNode (Num 6)),
                 Node Dice [diceRollNode 2] [(''sides'', Num 6), (''value'', Num 2)],
                 Node Dice [diceRollNode 5] [(''sides'', Num 6), (''value'', Num 5)]],
                [])"
    by code_simp
  have allocated: "0 < length [diceNode (integerNode 1) (diceSidesNode (Num 6))]" by simp
  from interpret_evaluates_a_copy [OF first second allocated] first second
  show ?thesis by blast
qed

section \<open>Sorting\<close>

lemma isRoll_value: "isRoll die \<Longrightarrow> getAttribute die ''value'' = Num (rollValue die)"
  by (auto simp: isRoll_def rollValue_def split: val.splits)

lemma evaluate_roll:
  assumes "isRoll die"
  shows "evaluate (Suc fuel) this die st = Returns (Num (countedValue die), die, st)"
  using assms isRoll_value [OF assms]
  by (simp add: evaluate_Suc evaluateStep_def evaluateDiceRoll_def countedValue_def isRoll_def)

lemma setChild_same: "x < length cs \<Longrightarrow> setChild x (cs ! x) (Node t cs as) = Node t cs as"
  by (simp add: setChild_def)

lemma sumChildren_rolls:
  assumes "list_all isRoll cs" and "\<forall>x \<in> set xs. x < length cs"
  shows "sumChildren (evaluate (Suc fuel) this) xs (Node t cs as) (Num acc) st =
           Returns (Num (acc + sum_list (map (\<lambda>x. countedValue (cs ! x)) xs)), Node t cs as, st)"
  using assms(2)
proof (induction xs arbitrary: acc)
  case Nil
  show ?case by simp
next
  case (Cons x xs)
  from Cons.prems have x: "x < length cs" and xs: "\<forall>x \<in> set xs. x < length cs" by simp_all
  from assms(1) x have "isRoll (cs ! x)" by (simp add: list_all_length)
  then show ?case
    using Cons.IH [OF xs] x
    by (simp add: getChild_def evaluate_roll setChild_same add.assoc)
qed

lemma sumChildren_all_rolls:
  assumes "list_all isRoll cs"
  shows "sumChildren (evaluate (Suc fuel) this) [0..<length cs] (Node t cs as) (Num 0) st =
           Returns (Num (sum_list (map countedValue cs)), Node t cs as, st)"
proof -
  have "map (\<lambda>x. countedValue (cs ! x)) [0..<length cs] = map countedValue cs"
    by (rule nth_equalityI) simp_all
  then show ?thesis
    using sumChildren_rolls [OF assms, of "[0..<length cs]" fuel this t as 0 st] by simp
qed



lemma rollValues_rolls: "list_all isRoll cs \<Longrightarrow> rollValues cs = Returns (map rollValue cs)"
  by (induction cs) (simp_all add: isRoll_value)

lemma insort_key_cong_on:
  "f x = g x \<Longrightarrow> \<forall>y \<in> set ys. f y = g y \<Longrightarrow> insort_key f x ys = insort_key g x ys"
  by (induction ys) simp_all

lemma sort_key_cong_on:
  assumes "\<forall>x \<in> set xs. f x = g x"
  shows "sort_key f xs = sort_key g xs"
  using assms
proof (induction xs)
  case Nil
  show ?case by simp
next
  case (Cons a xs)
  then have ih: "sort_key f xs = sort_key g xs" and a: "f a = g a"
    and tail: "\<forall>y \<in> set (sort_key g xs). f y = g y"
    by simp_all
  have "insort_key f a (sort_key g xs) = insort_key g a (sort_key g xs)"
    by (rule insort_key_cong_on [OF a tail])
  with ih show ?case by simp
qed

lemma map_insort_key: "map h (insort_key (\<lambda>x. f (h x)) x ys) = insort_key f (h x) (map h ys)"
  by (induction ys) simp_all

lemma map_sort_key: "map h (sort_key (\<lambda>x. f (h x)) xs) = sort_key f (map h xs)"
  by (induction xs) (simp_all add: map_insort_key)

lemma sorted_indices:
  "map ((!) cs) (sort_key (\<lambda>i. f (cs ! i)) [0..<length cs]) = sort_key f cs"
  using map_sort_key [of "(!) cs" f "[0..<length cs]"] by (simp add: map_nth)


lemma foldl_addChild:
  "foldl (\<lambda>d roll. addChild (cs ! roll) d) (Node t acc as) rolls =
     Node t (acc @ map ((!) cs) rolls) as"
  by (induction rolls arbitrary: acc) (simp_all add: addChild_def)

lemma evaluate_memoized:
  assumes "ntype e \<noteq> DiceRoll" and "truthy (getAttribute e ''value'')"
  shows "evaluate (Suc fuel) this e st = Returns (getAttribute e ''value'', e, st)"
  using assms by (simp add: evaluate_Suc evaluateStep_def)

lemma findLeftmostDiceNode_Dice:
  "ntype e = Dice \<Longrightarrow> findLeftmostDiceNode fuel ev e st = Returns (0, e, st)"
  by (cases fuel) simp_all

lemma findLeftmostDiceNode_child:
  assumes "ev dice st = Returns (v, dice', st')" and "ntype dice' = Dice" and "t \<noteq> Dice"
  shows "findLeftmostDiceNode (Suc fuel) ev (Node t (dice # rest) as) st =
           Returns (Suc 0, Node t (dice' # rest) as, st')"
  using assms
  by (simp add: getChildCount_def getChild_def findLeftmostDiceNode_Dice setChild_def)

lemma sortRolls_rolls:
  assumes "list_all isRoll cs" and "direction = ''ascending'' \<or> direction = ''descending''"
  shows "sortRolls (Str direction) (Node t cs as) =
           Returns (sort_key (\<lambda>i. sortKey direction (cs ! i)) [0..<length cs])"
proof -
  have "sort_key (\<lambda>i. - (map rollValue cs ! i)) [0..<length cs] =
        sort_key (\<lambda>i. - rollValue (cs ! i)) [0..<length cs]"
    by (rule sort_key_cong_on) simp
  moreover have "sort_key (\<lambda>i. map rollValue cs ! i) [0..<length cs] =
        sort_key (\<lambda>i. rollValue (cs ! i)) [0..<length cs]"
    by (rule sort_key_cong_on) simp
  ultimately show ?thesis
    using assms
    by (auto simp: sortRolls_def rollValues_rolls getChildCount_def sortKey_def)
qed

lemma getSortedDiceRolls_rolls:
  assumes "list_all isRoll cs" and "direction = ''ascending'' \<or> direction = ''descending''"
  shows "getSortedDiceRolls (evaluate (Suc fuel) this) (Node t cs as) (Str direction) st =
           Returns (sort_key (\<lambda>i. sortKey direction (cs ! i)) [0..<length cs],
                    Num (sum_list (map countedValue cs)), Node t cs as, st)"
  by (simp add: getSortedDiceRolls_def getChildCount_def sumChildren_all_rolls [OF assms(1)]
      sortRolls_rolls [OF assms])


lemma evaluateSort_rolled:
  assumes run: "evaluate (Suc fuel') this dice st = Returns (v, dice', st')"
    and dice': "ntype dice' = Dice" and rolls: "list_all isRoll (children dice')"
    and dir: "direction = ''ascending'' \<or> direction = ''descending''"
    and attr: "getAttribute (Node t (dice # rest) as) ''direction'' = Str direction"
    and t: "t \<noteq> Dice"
  shows "evaluateSort (Suc fuel) (evaluate (Suc fuel') this) (Node t (dice # rest) as) st =
           Returns (Num (sum_list (map countedValue (children dice'))),
                    Node t (Node Dice (sort_key (sortKey direction) (children dice')) (attrs dice') # rest) as,
                    st')"
proof -
  obtain cs ds where d: "dice' = Node Dice cs ds"
    using dice' by (cases dice') simp
  from rolls have rolls': "list_all isRoll cs" by (simp add: d)
  have found: "findLeftmostDiceNode (Suc fuel) (evaluate (Suc fuel') this) (Node t (dice # rest) as) st =
           Returns (Suc 0, Node t (Node Dice cs ds # rest) as, st')"
    using findLeftmostDiceNode_child [where ev = "evaluate (Suc fuel') this", OF run dice' t]
    by (simp add: d)
  have attr': "getAttribute (Node t (Node Dice cs ds # rest) as) ''direction'' = Str direction"
    using attr by (simp add: getAttribute_def)
  show ?thesis
    unfolding d
    using attr'
    by (simp add: evaluateSort_def expectChildCount_def getChildCount_def found getChild_def
        getSortedDiceRolls_rolls [OF rolls' dir] clearChildren_def foldl_addChild
        sorted_indices setChild_def del: findLeftmostDiceNode.simps)
qed

lemma evaluate_Sort_rolled:
  assumes run: "evaluate (Suc fuel) this dice st = Returns (v, dice', st')"
    and dice': "ntype dice' = Dice" and rolls: "list_all isRoll (children dice')"
    and dir: "direction = ''ascending'' \<or> direction = ''descending''"
  shows "evaluate (Suc (Suc fuel)) this (Node Sort [dice] [(''direction'', Str direction)]) st
           = Returns (Num (sum_list (map countedValue (children dice'))),
                      Node Sort [Node Dice (sort_key (sortKey direction) (children dice')) (attrs dice')]
                        [(''direction'', Str direction),
                         (''value'', Num (sum_list (map countedValue (children dice'))))],
                      st')"
proof -
  have attr: "getAttribute (Node Sort [dice] [(''direction'', Str direction)]) ''direction'' = Str direction"
    by (simp add: getAttribute_def)
  have t: "Sort \<noteq> Dice" by simp
  show ?thesis
    by (simp add: evaluate_Suc [of "Suc fuel"] evaluateStep_def evaluateCase_def
        evaluateSort_rolled [OF run dice' rolls dir attr t] getAttribute_def setAttribute_def)
qed

lemma sum_list_sort_key: "sum_list (map g (sort_key f xs)) = sum_list (map (g :: 'a \<Rightarrow> rat) xs)"
proof -
  have "mset (map g (sort_key f xs)) = mset (map g xs)" by simp
  then show ?thesis by (metis sum_mset_sum_list)
qed

text \<open>
  What Sort does to the rolls it is given. Let \<open>evaluate\<close> leave the operand of Sort as
  a Dice node \<open>dice'\<close> with DiceRoll children. Sort, ascending or descending, replaces
  the children by the same rolls in order of their values: the new child sequence is a
  permutation of the old one and is sorted in the direction asked for; the total of the
  Sort node is the total of the rolls, the same before and after, and the value cached
  on the Dice node stays. Where the cached total is truthy, so that \<open>evaluate\<close> does
  not roll the dice anew, evaluating Sort on the sorted node again returns the same
  total and tree.
\<close>

theorem sort_modifier_permutes_rolls:
  assumes run: "evaluate (Suc fuel) this dice st = Returns (v, dice', st')"
    and dice': "ntype dice' = Dice" and rolls: "list_all isRoll (children dice')"
    and dir: "direction = ''ascending'' \<or> direction = ''descending''"
  shows "evaluate (Suc (Suc fuel)) this (Node Sort [dice] [(''direction'', Str direction)]) st
           = Returns (Num (sum_list (map countedValue (children dice'))),
                      Node Sort [Node Dice (sort_key (sortKey direction) (children dice')) (attrs dice')]
                        [(''direction'', Str direction),
                         (''value'', Num (sum_list (map countedValue (children dice'))))],
                      st')
       \<and> mset (sort_key (sortKey direction) (children dice')) = mset (children dice')
       \<and> (direction = ''ascending'' \<longrightarrow>
            sorted_wrt (\<lambda>a b. rollValue a \<le> rollValue b) (sort_key (sortKey direction) (children dice')))
       \<and> (direction = ''descending'' \<longrightarrow>
            sorted_wrt (\<lambda>a b. rollValue b \<le> rollValue a) (sort_key (sortKey direction) (children dice')))
       \<and> sum_list (map countedValue (sort_key (sortKey direction) (children dice')))
           = sum_list (map countedValue (children dice'))
       \<and> getAttribute (Node Dice (sort_key (sortKey direction) (children dice')) (attrs dice')) ''value''
           = getAttribute dice' ''value''
       \<and> sort_key (sortKey direction) (sort_key (sortKey direction) (children dice'))
           = sort_key (sortKey direction) (children dice')
       \<and> (truthy (getAttribute dice' ''value'') \<longrightarrow>
            evaluate (Suc (Suc fuel)) this
              (Node Sort [Node Dice (sort_key (sortKey direction) (children dice')) (attrs dice')]
                 [(''direction'', Str direction)]) st'
            = Returns (Num (sum_list (map countedValue (children dice'))),
                       Node Sort [Node Dice (sort_key (sortKey direction) (children dice')) (attrs dice')]
                         [(''direction'', Str direction),
                          (''value'', Num (sum_list (map countedValue (children dice'))))],
                       st'))"
proof -
  let ?sorted = "sort_key (sortKey direction) (children dice')"
  have once: "evaluate (Suc (Suc fuel)) this (Node Sort [dice] [(''direction'', Str direction)]) st
           = Returns (Num (sum_list (map countedValue (children dice'))),
                      Node Sort [Node Dice ?sorted (attrs dice')]
                        [(''direction'', Str direction),
                         (''value'', Num (sum_list (map countedValue (children dice'))))],
                      st')"
    by (rule evaluate_Sort_rolled [OF run dice' rolls dir])
  have perm: "mset ?sorted = mset (children dice')" by simp
  have ordered: "sorted (map (sortKey direction) ?sorted)" by simp
  then have ordered_wrt: "sorted_wrt (\<lambda>a b. sortKey direction a \<le> sortKey direction b) ?sorted"
    by (simp add: sorted_map)
  have asc: "direction = ''ascending'' \<longrightarrow> sorted_wrt (\<lambda>a b. rollValue a \<le> rollValue b) ?sorted"
  proof
    assume "direction = ''ascending''"
    then have "sortKey direction = rollValue" by (simp add: sortKey_def fun_eq_iff)
    with ordered_wrt show "sorted_wrt (\<lambda>a b. rollValue a \<le> rollValue b) ?sorted" by simp
  qed
  have desc: "direction = ''descending'' \<longrightarrow> sorted_wrt (\<lambda>a b. rollValue b \<le> rollValue a) ?sorted"
  proof
    assume "direction = ''descending''"
    then have "sortKey direction = (\<lambda>die. - rollValue die)" by (simp add: sortKey_def fun_eq_iff)
    with ordered_wrt show "sorted_wrt (\<lambda>a b. rollValue b \<le> rollValue a) ?sorted" by simp
  qed
  have again: "sort_key (sortKey direction) ?sorted = ?sorted"
    by (rule sort_key_id_if_sorted [OF ordered])
  have sums: "sum_list (map countedValue ?sorted) = sum_list (map countedValue (children dice'))"
    by (rule sum_list_sort_key)
  have kept: "getAttribute (Node Dice ?sorted (attrs dice')) ''value'' = getAttribute dice' ''value''"
    by (simp add: getAttribute_def)
  have twice: "truthy (getAttribute dice' ''value'') \<longrightarrow>
            evaluate (Suc (Suc fuel)) this
              (Node Sort [Node Dice ?sorted (attrs dice')] [(''direction'', Str direction)]) st'
            = Returns (Num (sum_list (map countedValue (children dice'))),
                       Node Sort [Node Dice ?sorted (attrs dice')]
                         [(''direction'', Str direction),
                          (''value'', Num (sum_list (map countedValue (children dice'))))],
                       st')"
  proof
    assume "truthy (getAttribute dice' ''value'')"
    then have cached: "truthy (getAttribute (Node Dice ?sorted (attrs dice')) ''value'')"
      by (simp add: kept)
    have memo: "evaluate (Suc fuel) this (Node Dice ?sorted (attrs dice')) st'
        = Returns (getAttribute (Node Dice ?sorted (attrs dice')) ''value'', Node Dice ?sorted (attrs dice'), st')"
      by (rule evaluate_memoized [OF _ cached]) simp
    have rolls2: "list_all isRoll (children (Node Dice ?sorted (attrs dice')))"
      using rolls by (simp add: list_all_iff)
    show "evaluate (Suc (Suc fuel)) this
              (Node Sort [Node Dice ?sorted (attrs dice')] [(''direction'', Str direction)]) st'
            = Returns (Num (sum_list (map countedValue (children dice'))),
                       Node Sort [Node Dice ?sorted (attrs dice')]
                         [(''direction'', Str direction),
                          (''value'', Num (sum_list (map countedValue (children dice'))))],
                       st')"
      using evaluate_Sort_rolled [OF memo _ rolls2 dir] by (simp add: again sums)
  qed
  from once perm asc desc twice sums kept again show ?thesis by blast
qed

theorem sort_modifier_permutes_rolls_witness:
  "evaluate (Suc (Suc 0)) scripted (diceNode (integerNode 3) (diceSidesNode (Num 6)))
     \<lparr>rng = [3, 5, 1], errors = []\<rparr>
   = Returns (Num 9, Node Dice [diceRollNode 3, diceRollNode 5, diceRollNode 1]
                       [(''sides'', Num 6), (''value'', Num 9)], \<lparr>rng = [], errors = []\<rparr>)
   \<and> evaluate (Suc (Suc (Suc 0))) scripted
       (Node Sort [diceNode (integerNode 3) (diceSidesNode (Num 6))]
          [(''direction'', Str ''descending'')]) \<lparr>rng = [3, 5, 1], errors = []\<rparr>
     = Returns (Num 9,
                Node Sort [Node Dice [diceRollNode 5, diceRollNode 3, diceRollNode 1]
                             [(''sides'', Num 6), (''value'', Num 9)]]
                  [(''direction'', Str ''descending''), (''value'', Num 9)],
                \<lparr>rng = [], errors = []\<rparr>)
   \<and> evaluate (Suc (Suc (Suc 0))) scripted
       (Node Sort [Node Dice [diceRollNode 5, diceRollNode 3, diceRollNode 1]
                             [(''sides'', Num 6), (''value'', Num 9)]]
          [(''direction'', Str ''descending'')]) \<lparr>rng = [], errors = []\<rparr>
     = Returns (Num 9,
                Node Sort [Node Dice [diceRollNode 5, diceRollNode 3, diceRollNode 1]
                             [(''sides'', Num 6), (''value'', Num 9)]]
                  [(''direction'', Str ''descending''), (''value'', Num 9)],
                \<lparr>rng = [], errors = []\<rparr>)"
proof -
  let ?rolled = "Node Dice [diceRollNode 3, diceRollNode 5, diceRollNode 1]
                   [(''sides'', Num 6), (''value'', Num 9)]"
  have run: "evaluate (Suc (Suc 0)) scripted (diceNode (integerNode 3) (diceSidesNode (Num 6)))
       \<lparr>rng = [3, 5, 1], errors = []\<rparr>
     = Returns (Num 9, ?rolled, \<lparr>rng = [], errors = []\<rparr>)"
    by code_simp
  have dice': "ntype ?rolled = Dice" by simp
  have rolls: "list_all isRoll (children ?rolled)" by code_simp
  have dir: "''descending'' = ''ascending'' \<or> ''descending'' = ''descending''" by simp
  have order: "sort_key (sortKey ''descending'') (children ?rolled)
      = [diceRollNode 5, diceRollNode 3, diceRollNode 1]"
    by code_simp
  have tot: "sum_list (map countedValue (children ?rolled)) = 9" by code_simp
  have cached: "truthy (getAttribute ?rolled ''value'')" by code_simp
  note inst = sort_modifier_permutes_rolls [OF run dice' rolls dir]
  from inst have first: "evaluate (Suc (Suc (Suc 0))) scripted
          (Node Sort [diceNode (integerNode 3) (diceSidesNode (Num 6))] [(''direction'', Str ''descending'')])
          \<lparr>rng = [3, 5, 1], errors = []\<rparr>
        = Returns (Num (sum_list (map countedValue (children ?rolled))),
                   Node Sort [Node Dice (sort_key (sortKey ''descending'') (children ?rolled)) (attrs ?rolled)]
                     [(''direction'', Str ''descending''),
                      (''value'', Num (sum_list (map countedValue (children ?rolled))))],
                   \<lparr>rng = [], errors = []\<rparr>)"
    by blast
  from inst cached have second: "evaluate (Suc (Suc (Suc 0))) scripted
          (Node Sort [Node Dice (sort_key (sortKey ''descending'') (children ?rolled)) (attrs ?rolled)]
             [(''direction'', Str ''descending'')])
          \<lparr>rng = [], errors = []\<rparr>
        = Returns (Num (sum_list (map countedValue (children ?rolled))),
                   Node Sort [Node Dice (sort_key (sortKey ''descending'') (children ?rolled)) (attrs ?rolled)]
                     [(''direction'', Str ''descending''),
                      (''value'', Num (sum_list (map countedValue (children ?rolled))))],
                   \<lparr>rng = [], errors = []\<rparr>)"
    by blast
  from run first second show ?thesis unfolding order tot by simp
qed

text \<open>
  Claim C7. The claim: Sort leaves a permutation of the rolls in order, sorting twice
  equals sorting once, and the total of the Dice node is unchanged. Sort looks its Dice
  node up with \<open>findLeftmostDiceNode\<close>, which evaluates it, and the test
  \<open>!expression.getAttribute("value")\<close> takes a cached total of 0 for a missing one. The
  dice \<open>2dF\<close> that rolled 1 and -1 are sorted into -1, 1 with the total 0; a second Sort
  on that node evaluates the Dice node again, which reads the roll -1 as the count and
  the roll 1 as the sides and leaves the node with no rolls at all, and so does
  \<open>Sort[Sort[2dF]]\<close> evaluated from the start.
\<close>

theorem sort_twice_loses_zero_total_rolls:
  "evaluate (Suc (Suc (Suc 0))) scripted
     (Node Sort [diceNode (integerNode 2) (diceSidesNode (Str ''fate''))]
        [(''direction'', Str ''ascending'')])
     \<lparr>rng = [1, - 1], errors = []\<rparr>
   = Returns (Num 0,
       Node Sort
         [Node Dice [diceRollNode (- 1), diceRollNode 1] [(''sides'', Str ''fate''), (''value'', Num 0)]]
         [(''direction'', Str ''ascending''), (''value'', Num 0)],
       \<lparr>rng = [], errors = []\<rparr>)
   \<and> evaluate (Suc (Suc (Suc 0))) scripted
       (Node Sort
          [Node Dice [diceRollNode (- 1), diceRollNode 1] [(''sides'', Str ''fate''), (''value'', Num 0)]]
          [(''direction'', Str ''ascending'')])
       \<lparr>rng = [], errors = []\<rparr>
     = Returns (Num 0,
         Node Sort [Node Dice [] [(''sides'', Num 1), (''value'', Num 0)]]
           [(''direction'', Str ''ascending''), (''value'', Num 0)],
         \<lparr>rng = [], errors = []\<rparr>)
   \<and> evaluate (Suc (Suc (Suc (Suc 0)))) scripted
       (Node Sort
          [Node Sort [diceNode (integerNode 2) (diceSidesNode (Str ''fate''))]
             [(''direction'', Str ''ascending'')]]
          [(''direction'', Str ''ascending'')])
       \<lparr>rng = [1, - 1], errors = []\<rparr>
     = Returns (Num 0,
         Node Sort
           [Node Sort [Node Dice [] [(''sides'', Num 1), (''value'', Num 0)]]
              [(''direction'', Str ''ascending''), (''value'', Num 0)]]
           [(''direction'', Str ''ascending''), (''value'', Num 0)],
         \<lparr>rng = [], errors = []\<rparr>)"
  by code_simp

section \<open>Keep and Drop\<close>

text \<open>
  \<open>keepRolls\<close> and \<open>dropRolls\<close> visit the sorted rolls once each: every roll gets its
  \<open>drop\<close> attribute written, whatever it was before, and the total adds the value
  attribute of the rolls marked \<open>no\<close>.
\<close>

lemma isRoll_setAttribute_drop: "isRoll die \<Longrightarrow> isRoll (setAttribute ''drop'' v die)"
  by (simp add: isRoll_def)

lemma rollValue_setAttribute_drop [simp]: "rollValue (setAttribute ''drop'' v die) = rollValue die"
  by (simp add: rollValue_def)

lemma markRoll_Node:
  "markRoll flag r (Node t cs as) = Node t (cs[r := setAttribute ''drop'' (Str flag) (cs ! r)]) as"
  by (simp add: markRoll_def setChild_def getChild_def)

lemma list_all_update: "list_all P xs \<Longrightarrow> P x \<Longrightarrow> list_all P (xs[i := x])"
  using set_update_subset_insert [of xs i x] by (auto simp: list_all_iff)

lemma keepRolls_marks:
  assumes "distinct rolls" and "\<forall>r \<in> set rolls. r < length cs" and "list_all isRoll cs"
  shows "\<exists>cs'. keepRolls (Num c) rolls k (Node t cs as) (Num acc)
            = Returns (Node t cs' as,
                Num (acc + sum_list (map (\<lambda>(j, r). if of_nat j < c then rollValue (cs ! r) else 0)
                                       (enumerate k rolls))))
          \<and> length cs' = length cs
          \<and> (\<forall>j < length rolls. cs' ! (rolls ! j)
                = setAttribute ''drop'' (Str (if of_nat (k + j) < c then ''no'' else ''yes''))
                    (cs ! (rolls ! j)))
          \<and> (\<forall>i. i \<notin> set rolls \<longrightarrow> cs' ! i = cs ! i)"
  using assms
proof (induction rolls arbitrary: k cs acc)
  case Nil
  show ?case by simp
next
  case (Cons r rs)
  define flag where "flag = (if of_nat k < c then ''no'' else ''yes'')"
  define cs1 where "cs1 = cs[r := setAttribute ''drop'' (Str flag) (cs ! r)]"
  define acc1 where "acc1 = (if of_nat k < c then acc + rollValue (cs ! r) else acc)"
  from Cons.prems have r: "r < length cs" and fresh: "r \<notin> set rs" and d: "distinct rs"
    and bound: "\<forall>x \<in> set rs. x < length cs"
    by simp_all
  have roll: "isRoll (cs ! r)" using Cons.prems(3) r by (simp add: list_all_length)
  have rolls1: "list_all isRoll cs1"
    unfolding cs1_def by (rule list_all_update [OF Cons.prems(3) isRoll_setAttribute_drop [OF roll]])
  have bound1: "\<forall>x \<in> set rs. x < length cs1" using bound by (simp add: cs1_def)
  have same: "rollValue (cs1 ! i) = rollValue (cs ! i)" for i
    using r by (cases "i = r") (simp_all add: cs1_def)
  have step: "keepRolls (Num c) (r # rs) k (Node t cs as) (Num acc)
      = keepRolls (Num c) rs (Suc k) (Node t cs1 as) (Num acc1)"
    using isRoll_value [OF roll]
    by (simp add: markRoll_Node getChild_def cs1_def acc1_def flag_def)
  from Cons.IH [OF d bound1 rolls1, of "Suc k" acc1] obtain cs' where
    run: "keepRolls (Num c) rs (Suc k) (Node t cs1 as) (Num acc1)
            = Returns (Node t cs' as,
                Num (acc1 + sum_list (map (\<lambda>(j, r). if of_nat j < c then rollValue (cs1 ! r) else 0)
                                        (enumerate (Suc k) rs))))"
    and len: "length cs' = length cs1"
    and marks: "\<forall>j < length rs. cs' ! (rs ! j)
                = setAttribute ''drop'' (Str (if of_nat (Suc k + j) < c then ''no'' else ''yes''))
                    (cs1 ! (rs ! j))"
    and others: "\<forall>i. i \<notin> set rs \<longrightarrow> cs' ! i = cs1 ! i"
    by blast
  have total: "acc1 + sum_list (map (\<lambda>(j, r). if of_nat j < c then rollValue (cs1 ! r) else 0)
                                        (enumerate (Suc k) rs))
      = acc + sum_list (map (\<lambda>(j, r). if of_nat j < c then rollValue (cs ! r) else 0)
                                       (enumerate k (r # rs)))"
  proof -
    have "(\<lambda>(j, r). if of_nat j < c then rollValue (cs1 ! r) else 0)
        = (\<lambda>(j, r). if of_nat j < c then rollValue (cs ! r) else 0)"
      by (simp add: fun_eq_iff same)
    then show ?thesis by (simp add: acc1_def)
  qed
  have head: "cs' ! r = setAttribute ''drop'' (Str flag) (cs ! r)"
    using others fresh r by (simp add: cs1_def)
  have tail: "cs' ! (rs ! j)
      = setAttribute ''drop'' (Str (if of_nat (Suc k + j) < c then ''no'' else ''yes'')) (cs ! (rs ! j))"
    if "j < length rs" for j
  proof -
    from that fresh have "rs ! j \<noteq> r" by (metis nth_mem)
    then have "cs1 ! (rs ! j) = cs ! (rs ! j)" by (simp add: cs1_def)
    with marks that show ?thesis by simp
  qed
  have all_marks: "\<forall>j < length (r # rs). cs' ! ((r # rs) ! j)
                = setAttribute ''drop'' (Str (if of_nat (k + j) < c then ''no'' else ''yes''))
                    (cs ! ((r # rs) ! j))"
  proof (intro allI impI)
    fix j assume j: "j < length (r # rs)"
    show "cs' ! ((r # rs) ! j)
                = setAttribute ''drop'' (Str (if of_nat (k + j) < c then ''no'' else ''yes''))
                    (cs ! ((r # rs) ! j))"
    proof (cases j)
      case 0
      then show ?thesis using head by (simp add: flag_def)
    next
      case (Suc j')
      with j have "j' < length rs" by simp
      from tail [OF this] Suc show ?thesis by simp
    qed
  qed
  have rest: "\<forall>i. i \<notin> set (r # rs) \<longrightarrow> cs' ! i = cs ! i"
    using others by (simp add: cs1_def)
  have len': "length cs' = length cs" using len by (simp add: cs1_def)
  from step run total len' all_marks rest show ?case
    by (intro exI [of _ cs']) simp
qed

lemma dropRolls_marks:
  assumes "distinct rolls" and "\<forall>r \<in> set rolls. r < length cs" and "list_all isRoll cs"
  shows "\<exists>cs'. dropRolls (Num c) rolls k (Node t cs as) (Num acc)
            = Returns (Node t cs' as,
                Num (acc + sum_list (map (\<lambda>(j, r). if of_nat j < c then 0 else rollValue (cs ! r))
                                       (enumerate k rolls))))
          \<and> length cs' = length cs
          \<and> (\<forall>j < length rolls. cs' ! (rolls ! j)
                = setAttribute ''drop'' (Str (if of_nat (k + j) < c then ''yes'' else ''no''))
                    (cs ! (rolls ! j)))
          \<and> (\<forall>i. i \<notin> set rolls \<longrightarrow> cs' ! i = cs ! i)"
  using assms
proof (induction rolls arbitrary: k cs acc)
  case Nil
  show ?case by simp
next
  case (Cons r rs)
  define flag where "flag = (if of_nat k < c then ''yes'' else ''no'')"
  define cs1 where "cs1 = cs[r := setAttribute ''drop'' (Str flag) (cs ! r)]"
  define acc1 where "acc1 = (if of_nat k < c then acc else acc + rollValue (cs ! r))"
  from Cons.prems have r: "r < length cs" and fresh: "r \<notin> set rs" and d: "distinct rs"
    and bound: "\<forall>x \<in> set rs. x < length cs"
    by simp_all
  have roll: "isRoll (cs ! r)" using Cons.prems(3) r by (simp add: list_all_length)
  have rolls1: "list_all isRoll cs1"
    unfolding cs1_def by (rule list_all_update [OF Cons.prems(3) isRoll_setAttribute_drop [OF roll]])
  have bound1: "\<forall>x \<in> set rs. x < length cs1" using bound by (simp add: cs1_def)
  have same: "rollValue (cs1 ! i) = rollValue (cs ! i)" for i
    using r by (cases "i = r") (simp_all add: cs1_def)
  have step: "dropRolls (Num c) (r # rs) k (Node t cs as) (Num acc)
      = dropRolls (Num c) rs (Suc k) (Node t cs1 as) (Num acc1)"
    using isRoll_value [OF roll]
    by (simp add: markRoll_Node getChild_def cs1_def acc1_def flag_def)
  from Cons.IH [OF d bound1 rolls1, of "Suc k" acc1] obtain cs' where
    run: "dropRolls (Num c) rs (Suc k) (Node t cs1 as) (Num acc1)
            = Returns (Node t cs' as,
                Num (acc1 + sum_list (map (\<lambda>(j, r). if of_nat j < c then 0 else rollValue (cs1 ! r))
                                        (enumerate (Suc k) rs))))"
    and len: "length cs' = length cs1"
    and marks: "\<forall>j < length rs. cs' ! (rs ! j)
                = setAttribute ''drop'' (Str (if of_nat (Suc k + j) < c then ''yes'' else ''no''))
                    (cs1 ! (rs ! j))"
    and others: "\<forall>i. i \<notin> set rs \<longrightarrow> cs' ! i = cs1 ! i"
    by blast
  have total: "acc1 + sum_list (map (\<lambda>(j, r). if of_nat j < c then 0 else rollValue (cs1 ! r))
                                        (enumerate (Suc k) rs))
      = acc + sum_list (map (\<lambda>(j, r). if of_nat j < c then 0 else rollValue (cs ! r))
                                       (enumerate k (r # rs)))"
  proof -
    have "(\<lambda>(j, r). if of_nat j < c then 0 else rollValue (cs1 ! r))
        = (\<lambda>(j, r). if of_nat j < c then 0 else rollValue (cs ! r))"
      by (simp add: fun_eq_iff same)
    then show ?thesis by (simp add: acc1_def)
  qed
  have head: "cs' ! r = setAttribute ''drop'' (Str flag) (cs ! r)"
    using others fresh r by (simp add: cs1_def)
  have tail: "cs' ! (rs ! j)
      = setAttribute ''drop'' (Str (if of_nat (Suc k + j) < c then ''yes'' else ''no'')) (cs ! (rs ! j))"
    if "j < length rs" for j
  proof -
    from that fresh have "rs ! j \<noteq> r" by (metis nth_mem)
    then have "cs1 ! (rs ! j) = cs ! (rs ! j)" by (simp add: cs1_def)
    with marks that show ?thesis by simp
  qed
  have all_marks: "\<forall>j < length (r # rs). cs' ! ((r # rs) ! j)
                = setAttribute ''drop'' (Str (if of_nat (k + j) < c then ''yes'' else ''no''))
                    (cs ! ((r # rs) ! j))"
  proof (intro allI impI)
    fix j assume j: "j < length (r # rs)"
    show "cs' ! ((r # rs) ! j)
                = setAttribute ''drop'' (Str (if of_nat (k + j) < c then ''yes'' else ''no''))
                    (cs ! ((r # rs) ! j))"
    proof (cases j)
      case 0
      then show ?thesis using head by (simp add: flag_def)
    next
      case (Suc j')
      with j have "j' < length rs" by simp
      from tail [OF this] Suc show ?thesis by simp
    qed
  qed
  have rest: "\<forall>i. i \<notin> set (r # rs) \<longrightarrow> cs' ! i = cs ! i"
    using others by (simp add: cs1_def)
  have len': "length cs' = length cs" using len by (simp add: cs1_def)
  from step run total len' all_marks rest show ?case
    by (intro exI [of _ cs']) simp
qed

lemma kept_total:
  assumes perm: "mset order = mset [0..<length cs]" and len: "length cs' = length cs"
    and marks: "\<forall>j < length order. cs' ! (order ! j)
                  = setAttribute ''drop'' (Str (if P j then ''no'' else ''yes'')) (cs ! (order ! j))"
  shows "sum_list (map (\<lambda>(j, r). if P j then rollValue (cs ! r) else 0) (enumerate 0 order))
       = sum_list (map rollValue (filter (\<lambda>d. getAttribute d ''drop'' = Str ''no'') cs'))"
proof -
  define g where "g = (\<lambda>d. if getAttribute d ''drop'' = Str ''no'' then rollValue d else 0)"
  have n: "length order = length cs"
    using perm by (metis length_upt minus_nat.diff_0 size_mset)
  have "sum_list (map rollValue (filter (\<lambda>d. getAttribute d ''drop'' = Str ''no'') cs'))
      = sum_list (map g cs')"
    by (simp add: sum_list_map_filter' g_def)
  also have "map g cs' = map (\<lambda>i. g (cs' ! i)) [0..<length cs]"
    by (rule nth_equalityI) (simp_all add: len)
  also have "sum_list (map (\<lambda>i. g (cs' ! i)) [0..<length cs]) = sum_list (map (\<lambda>i. g (cs' ! i)) order)"
  proof -
    have "mset (map (\<lambda>i. g (cs' ! i)) [0..<length cs]) = mset (map (\<lambda>i. g (cs' ! i)) order)"
      using perm by (metis mset_map)
    then show ?thesis by (metis sum_mset_sum_list)
  qed
  also have "map (\<lambda>i. g (cs' ! i)) order
      = map (\<lambda>(j, r). if P j then rollValue (cs ! r) else 0) (enumerate 0 order)"
  proof (rule nth_equalityI)
    show "length (map (\<lambda>i. g (cs' ! i)) order)
        = length (map (\<lambda>(j, r). if P j then rollValue (cs ! r) else 0) (enumerate 0 order))"
      by simp
  next
    fix j assume "j < length (map (\<lambda>i. g (cs' ! i)) order)"
    then have j: "j < length order" by simp
    with marks have "cs' ! (order ! j)
        = setAttribute ''drop'' (Str (if P j then ''no'' else ''yes'')) (cs ! (order ! j))"
      by simp
    then have "g (cs' ! (order ! j)) = (if P j then rollValue (cs ! (order ! j)) else 0)"
      by (simp add: g_def)
    with j show "map (\<lambda>i. g (cs' ! i)) order ! j
        = map (\<lambda>(j, r). if P j then rollValue (cs ! r) else 0) (enumerate 0 order) ! j"
      by (simp add: nth_enumerate_eq)
  qed
  finally show ?thesis by simp
qed

lemma evaluateCount_integer:
  assumes "cnt = [] \<and> c = 1 \<or> cnt = [integerNode c]"
  shows "evaluateCount (evaluate (Suc fuel) this) (Node t (d # cnt) as) st =
           Returns (Num c, Node t (d # cnt) as, st)"
  using assms
  by (auto simp: evaluateCount_def getChildCount_def getChild_def evaluate_integerNode setChild_def)

lemma keep_drop_prelude:
  assumes run: "evaluate (Suc fuel) this dice st = Returns (v, Node Dice cs ds, st')"
    and rolls: "list_all isRoll cs"
    and cached: "truthy (getAttribute (Node Dice cs ds) ''value'')"
    and cnt: "cnt = [] \<and> c = 1 \<or> cnt = [integerNode c]"
    and t: "t \<noteq> Dice"
  shows "findLeftmostDiceNode (Suc fuel) (evaluate (Suc fuel) this) (Node t (dice # cnt) [(''type'', Str ty)]) st
           = Returns (Suc 0, Node t (Node Dice cs ds # cnt) [(''type'', Str ty)], st')"
    and "evaluateCount (evaluate (Suc fuel) this) (Node t (Node Dice cs ds # cnt) [(''type'', Str ty)]) st'
           = Returns (Num c, Node t (Node Dice cs ds # cnt) [(''type'', Str ty)], st')"
    and "evaluate (Suc fuel) this (Node Dice cs ds) st'
           = Returns (getAttribute (Node Dice cs ds) ''value'', Node Dice cs ds, st')"
    and "getSortedDiceRolls (evaluate (Suc fuel) this) (Node Dice cs ds)
             (sortDirection (Node t (Node Dice cs ds # cnt) [(''type'', Str ty)])) st'
           = Returns (sort_key (\<lambda>i. sortKey (keepDirection ty) (cs ! i)) [0..<length cs],
                      Num (sum_list (map countedValue cs)), Node Dice cs ds, st')"
proof -
  have d: "ntype (Node Dice cs ds) = Dice" by simp
  show "findLeftmostDiceNode (Suc fuel) (evaluate (Suc fuel) this) (Node t (dice # cnt) [(''type'', Str ty)]) st
           = Returns (Suc 0, Node t (Node Dice cs ds # cnt) [(''type'', Str ty)], st')"
    by (rule findLeftmostDiceNode_child [where ev = "evaluate (Suc fuel) this", OF run d t])
  show "evaluateCount (evaluate (Suc fuel) this) (Node t (Node Dice cs ds # cnt) [(''type'', Str ty)]) st'
           = Returns (Num c, Node t (Node Dice cs ds # cnt) [(''type'', Str ty)], st')"
    by (rule evaluateCount_integer [OF cnt])
  show "evaluate (Suc fuel) this (Node Dice cs ds) st'
           = Returns (getAttribute (Node Dice cs ds) ''value'', Node Dice cs ds, st')"
    by (rule evaluate_memoized [OF _ cached]) simp
  have dir: "keepDirection ty = ''ascending'' \<or> keepDirection ty = ''descending''"
    by (simp add: keepDirection_def)
  have "sortDirection (Node t (Node Dice cs ds # cnt) [(''type'', Str ty)]) = Str (keepDirection ty)"
    by (simp add: sortDirection_def keepDirection_def getAttribute_def)
  then show "getSortedDiceRolls (evaluate (Suc fuel) this) (Node Dice cs ds)
             (sortDirection (Node t (Node Dice cs ds # cnt) [(''type'', Str ty)])) st'
           = Returns (sort_key (\<lambda>i. sortKey (keepDirection ty) (cs ! i)) [0..<length cs],
                      Num (sum_list (map countedValue cs)), Node Dice cs ds, st')"
    using getSortedDiceRolls_rolls [OF rolls dir] by simp
qed

lemma evaluateKeep_rolled:
  assumes run: "evaluate (Suc fuel) this dice st = Returns (v, Node Dice cs ds, st')"
    and rolls: "list_all isRoll cs"
    and cached: "truthy (getAttribute (Node Dice cs ds) ''value'')"
    and cnt: "cnt = [] \<and> c = 1 \<or> cnt = [integerNode c]"
  shows "\<exists>cs'. evaluateKeep (Suc fuel) (evaluate (Suc fuel) this) (Node Keep (dice # cnt) [(''type'', Str ty)]) st
           = Returns (Num (sum_list (map (\<lambda>(j, r). if of_nat j < c then rollValue (cs ! r) else 0)
                        (enumerate 0 (sort_key (\<lambda>i. sortKey (keepDirection ty) (cs ! i)) [0..<length cs])))),
                      Node Keep (Node Dice cs' ds # cnt) [(''type'', Str ty)], st')
         \<and> length cs' = length cs
         \<and> (\<forall>j < length cs. cs' ! (sort_key (\<lambda>i. sortKey (keepDirection ty) (cs ! i)) [0..<length cs] ! j)
               = setAttribute ''drop'' (Str (if of_nat j < c then ''no'' else ''yes''))
                   (cs ! (sort_key (\<lambda>i. sortKey (keepDirection ty) (cs ! i)) [0..<length cs] ! j)))"
proof -
  let ?order = "sort_key (\<lambda>i. sortKey (keepDirection ty) (cs ! i)) [0..<length cs]"
  have t: "Keep \<noteq> Dice" by simp
  note pre = keep_drop_prelude [OF run rolls cached cnt t]
  have d: "distinct ?order" by simp
  have s: "\<forall>r \<in> set ?order. r < length cs" by simp
  have l: "length ?order = length cs" by simp
  from keepRolls_marks [OF d s rolls, of c 0 Dice ds 0]
  obtain cs' where
    k: "keepRolls (Num c) ?order 0 (Node Dice cs ds) (Num 0)
          = Returns (Node Dice cs' ds,
              Num (sum_list (map (\<lambda>(j, r). if of_nat j < c then rollValue (cs ! r) else 0) (enumerate 0 ?order))))"
    and len: "length cs' = length cs"
    and marks: "\<forall>j < length ?order. cs' ! (?order ! j)
                  = setAttribute ''drop'' (Str (if of_nat j < c then ''no'' else ''yes'')) (cs ! (?order ! j))"
    by auto
  have "evaluateKeep (Suc fuel) (evaluate (Suc fuel) this) (Node Keep (dice # cnt) [(''type'', Str ty)]) st
           = Returns (Num (sum_list (map (\<lambda>(j, r). if of_nat j < c then rollValue (cs ! r) else 0)
                        (enumerate 0 ?order))),
                      Node Keep (Node Dice cs' ds # cnt) [(''type'', Str ty)], st')"
    by (simp add: evaluateKeep_def expectChildCount_def getChildCount_def pre k getChild_def setChild_def
        del: findLeftmostDiceNode.simps)
  with len marks l show ?thesis by auto
qed

lemma evaluateDrop_rolled:
  assumes run: "evaluate (Suc fuel) this dice st = Returns (v, Node Dice cs ds, st')"
    and rolls: "list_all isRoll cs"
    and cached: "truthy (getAttribute (Node Dice cs ds) ''value'')"
    and cnt: "cnt = [] \<and> c = 1 \<or> cnt = [integerNode c]"
  shows "\<exists>cs'. evaluateDrop (Suc fuel) (evaluate (Suc fuel) this) (Node Drop (dice # cnt) [(''type'', Str ty)]) st
           = Returns (Num (sum_list (map (\<lambda>(j, r). if of_nat j < c then 0 else rollValue (cs ! r))
                        (enumerate 0 (sort_key (\<lambda>i. sortKey (keepDirection ty) (cs ! i)) [0..<length cs])))),
                      Node Drop (Node Dice cs' ds # cnt) [(''type'', Str ty)], st')
         \<and> length cs' = length cs
         \<and> (\<forall>j < length cs. cs' ! (sort_key (\<lambda>i. sortKey (keepDirection ty) (cs ! i)) [0..<length cs] ! j)
               = setAttribute ''drop'' (Str (if of_nat j < c then ''yes'' else ''no''))
                   (cs ! (sort_key (\<lambda>i. sortKey (keepDirection ty) (cs ! i)) [0..<length cs] ! j)))"
proof -
  let ?order = "sort_key (\<lambda>i. sortKey (keepDirection ty) (cs ! i)) [0..<length cs]"
  have t: "Drop \<noteq> Dice" by simp
  note pre = keep_drop_prelude [OF run rolls cached cnt t]
  have d: "distinct ?order" by simp
  have s: "\<forall>r \<in> set ?order. r < length cs" by simp
  have l: "length ?order = length cs" by simp
  from dropRolls_marks [OF d s rolls, of c 0 Dice ds 0]
  obtain cs' where
    k: "dropRolls (Num c) ?order 0 (Node Dice cs ds) (Num 0)
          = Returns (Node Dice cs' ds,
              Num (sum_list (map (\<lambda>(j, r). if of_nat j < c then 0 else rollValue (cs ! r)) (enumerate 0 ?order))))"
    and len: "length cs' = length cs"
    and marks: "\<forall>j < length ?order. cs' ! (?order ! j)
                  = setAttribute ''drop'' (Str (if of_nat j < c then ''yes'' else ''no'')) (cs ! (?order ! j))"
    by auto
  have "evaluateDrop (Suc fuel) (evaluate (Suc fuel) this) (Node Drop (dice # cnt) [(''type'', Str ty)]) st
           = Returns (Num (sum_list (map (\<lambda>(j, r). if of_nat j < c then 0 else rollValue (cs ! r))
                        (enumerate 0 ?order))),
                      Node Drop (Node Dice cs' ds # cnt) [(''type'', Str ty)], st')"
    by (simp add: evaluateDrop_def expectChildCount_def getChildCount_def pre k getChild_def setChild_def
        del: findLeftmostDiceNode.simps)
  with len marks l show ?thesis by auto
qed

text \<open>
  Claim C5, as stated, has only the rolls that are not already dropped ordered and
  marked. The code orders and marks every child: after \<open>3d6\<close> rolled 1, 5, 3 and
  drop-lowest-1 has dropped the 1, keep-lowest-1 on that Dice node keeps the dropped 1
  (marking it \<open>drop=no\<close> again) and totals 1, where the rolls not already dropped are
  5 and 3 and the lowest of them is 3.
\<close>

theorem keep_again_marks_dropped_roll:
  "evaluate (Suc (Suc (Suc 0))) scripted
     (Node Drop [diceNode (integerNode 3) (diceSidesNode (Num 6))] [(''type'', Str ''lowest'')])
     \<lparr>rng = [1, 5, 3], errors = []\<rparr>
   = Returns (Num 8,
       Node Drop
         [Node Dice [setAttribute ''drop'' (Str ''yes'') (diceRollNode 1), diceRollNode 5, diceRollNode 3]
            [(''sides'', Num 6), (''value'', Num 9)]]
         [(''type'', Str ''lowest''), (''value'', Num 8)],
       \<lparr>rng = [], errors = []\<rparr>)
   \<and> evaluate (Suc (Suc (Suc 0))) scripted
       (Node Keep
          [Node Dice [setAttribute ''drop'' (Str ''yes'') (diceRollNode 1), diceRollNode 5, diceRollNode 3]
             [(''sides'', Num 6), (''value'', Num 9)]]
          [(''type'', Str ''lowest'')])
       \<lparr>rng = [], errors = []\<rparr>
     = Returns (Num 1,
         Node Keep
           [Node Dice [diceRollNode 1,
                       setAttribute ''drop'' (Str ''yes'') (diceRollNode 5),
                       setAttribute ''drop'' (Str ''yes'') (diceRollNode 3)]
              [(''sides'', Num 6), (''value'', Num 9)]]
           [(''type'', Str ''lowest''), (''value'', Num 1)],
         \<lparr>rng = [], errors = []\<rparr>)"
  by code_simp

text \<open>
  Claim C5, amended. Let \<open>evaluate\<close> leave the operand of Keep or Drop as a Dice node
  \<open>dice'\<close> with DiceRoll children and a truthy cached total, and let the count be the
  integer literal \<open>c\<close>, or absent and \<open>c = 1\<close>. Then all the children of the Dice node,
  dropped before or not, are taken in an order that is a permutation of their
  positions, sorted by value, descending unless the type is \<open>lowest\<close>; the roll at
  position \<open>j\<close> of that order is marked \<open>drop=no\<close> when \<open>j < c\<close> for Keep (when \<open>j \<ge> c\<close>
  for Drop) and \<open>drop=yes\<close> otherwise, and is otherwise unchanged; and the total of the
  modifier is the sum of the values of exactly the children marked \<open>drop=no\<close>.
\<close>

theorem keep_drop_mark_all_rolls:
  assumes run: "evaluate (Suc fuel) this dice st = Returns (v, dice', st')"
    and dice': "ntype dice' = Dice" and rolls: "list_all isRoll (children dice')"
    and cached: "truthy (getAttribute dice' ''value'')"
    and modifier: "modifier = Keep \<or> modifier = Drop"
    and cnt: "cnt = [] \<and> c = 1 \<or> cnt = [integerNode c]"
  shows "\<exists>order rolls' tot.
           evaluate (Suc (Suc fuel)) this (Node modifier (dice # cnt) [(''type'', Str ty)]) st
             = Returns (Num tot,
                        Node modifier (Node Dice rolls' (attrs dice') # cnt)
                          [(''type'', Str ty), (''value'', Num tot)],
                        st')
         \<and> mset order = mset [0..<length (children dice')]
         \<and> sorted (map (\<lambda>i. sortKey (keepDirection ty) (children dice' ! i)) order)
         \<and> length rolls' = length (children dice')
         \<and> (\<forall>j < length order. rolls' ! (order ! j)
               = setAttribute ''drop'' (Str (if keptPosition modifier c j then ''no'' else ''yes''))
                   (children dice' ! (order ! j)))
         \<and> tot = sum_list (map rollValue (filter (\<lambda>d. getAttribute d ''drop'' = Str ''no'') rolls'))"
proof -
  obtain cs ds where d: "dice' = Node Dice cs ds"
    using dice' by (cases dice') simp
  let ?order = "sort_key (\<lambda>i. sortKey (keepDirection ty) (cs ! i)) [0..<length cs]"
  let ?e = "Node modifier (dice # cnt) [(''type'', Str ty)]"
  have run': "evaluate (Suc fuel) this dice st = Returns (v, Node Dice cs ds, st')"
    using run d by simp
  have rolls': "list_all isRoll cs" using rolls d by simp
  have cached': "truthy (getAttribute (Node Dice cs ds) ''value'')" using cached d by simp
  have perm: "mset ?order = mset [0..<length cs]" by simp
  have ordered: "sorted (map (\<lambda>i. sortKey (keepDirection ty) (cs ! i)) ?order)" by simp
  have l: "length ?order = length cs" by simp
  have fresh: "\<not> truthy (getAttribute ?e ''value'')" "ntype ?e \<noteq> DiceRoll"
    using modifier by (auto simp: getAttribute_def)
  have "\<exists>rolls' tot.
      evaluateCase (Suc fuel) this (evaluate (Suc fuel) this) ?e st
        = Returns (Num tot, Node modifier (Node Dice rolls' ds # cnt) [(''type'', Str ty)], st')
      \<and> length rolls' = length cs
      \<and> (\<forall>j < length ?order. rolls' ! (?order ! j)
            = setAttribute ''drop'' (Str (if keptPosition modifier c j then ''no'' else ''yes''))
                (cs ! (?order ! j)))
      \<and> tot = sum_list (map rollValue (filter (\<lambda>d. getAttribute d ''drop'' = Str ''no'') rolls'))"
  proof (rule disjE [OF modifier])
    assume m: "modifier = Keep"
    from evaluateKeep_rolled [OF run' rolls' cached' cnt, of ty]
    obtain cs' where
      k: "evaluateKeep (Suc fuel) (evaluate (Suc fuel) this) (Node Keep (dice # cnt) [(''type'', Str ty)]) st
           = Returns (Num (sum_list (map (\<lambda>(j, r). if of_nat j < c then rollValue (cs ! r) else 0)
                        (enumerate 0 ?order))),
                      Node Keep (Node Dice cs' ds # cnt) [(''type'', Str ty)], st')"
      and len: "length cs' = length cs"
      and marks: "\<forall>j < length ?order. cs' ! (?order ! j)
               = setAttribute ''drop'' (Str (if of_nat j < c then ''no'' else ''yes'')) (cs ! (?order ! j))"
      by auto
    note sum = kept_total [OF perm len marks]
    show ?thesis
      using k len marks sum by (simp add: m evaluateCase_def keptPosition_def)
  next
    assume m: "modifier = Drop"
    from evaluateDrop_rolled [OF run' rolls' cached' cnt, of ty]
    obtain cs' where
      k: "evaluateDrop (Suc fuel) (evaluate (Suc fuel) this) (Node Drop (dice # cnt) [(''type'', Str ty)]) st
           = Returns (Num (sum_list (map (\<lambda>(j, r). if of_nat j < c then 0 else rollValue (cs ! r))
                        (enumerate 0 ?order))),
                      Node Drop (Node Dice cs' ds # cnt) [(''type'', Str ty)], st')"
      and len: "length cs' = length cs"
      and marks: "\<forall>j < length ?order. cs' ! (?order ! j)
               = setAttribute ''drop'' (Str (if of_nat j < c then ''yes'' else ''no'')) (cs ! (?order ! j))"
      by auto
    have marks': "\<forall>j < length ?order. cs' ! (?order ! j)
               = setAttribute ''drop'' (Str (if \<not> of_nat j < c then ''no'' else ''yes'')) (cs ! (?order ! j))"
      using marks by simp
    have f: "(\<lambda>(j, r). if of_nat j < c then 0 else rollValue (cs ! r))
           = (\<lambda>(j, r). if \<not> of_nat j < c then rollValue (cs ! r) else 0)"
      by (simp add: fun_eq_iff)
    note sum = kept_total [OF perm len marks', folded f]
    show ?thesis
      using k len marks sum by (simp add: m evaluateCase_def keptPosition_def)
  qed
  then obtain rolls' tot where
    c: "evaluateCase (Suc fuel) this (evaluate (Suc fuel) this) ?e st
        = Returns (Num tot, Node modifier (Node Dice rolls' ds # cnt) [(''type'', Str ty)], st')"
    and len: "length rolls' = length cs"
    and marks: "\<forall>j < length ?order. rolls' ! (?order ! j)
            = setAttribute ''drop'' (Str (if keptPosition modifier c j then ''no'' else ''yes''))
                (cs ! (?order ! j))"
    and tot: "tot = sum_list (map rollValue (filter (\<lambda>d. getAttribute d ''drop'' = Str ''no'') rolls'))"
    by blast
  have e: "evaluate (Suc (Suc fuel)) this ?e st
             = Returns (Num tot,
                        Node modifier (Node Dice rolls' (attrs dice') # cnt)
                          [(''type'', Str ty), (''value'', Num tot)],
                        st')"
    using fresh c d by (simp add: evaluate_Suc [of "Suc fuel"] evaluateStep_def setAttribute_def getAttribute_def)
  show ?thesis
    apply (rule exI [of _ ?order], rule exI [of _ rolls'], rule exI [of _ tot])
    using e perm ordered len marks tot d by simp
qed

theorem keep_drop_mark_all_rolls_witness:
  "evaluate (Suc (Suc 0)) scripted (diceNode (integerNode 4) (diceSidesNode (Num 6)))
     \<lparr>rng = [3, 6, 2, 5], errors = []\<rparr>
   = Returns (Num 16,
       Node Dice [diceRollNode 3, diceRollNode 6, diceRollNode 2, diceRollNode 5]
         [(''sides'', Num 6), (''value'', Num 16)],
       \<lparr>rng = [], errors = []\<rparr>)
   \<and> (\<exists>order rolls' tot.
         evaluate (Suc (Suc (Suc 0))) scripted
           (Node Keep [diceNode (integerNode 4) (diceSidesNode (Num 6)), integerNode 2]
              [(''type'', Str ''highest'')])
           \<lparr>rng = [3, 6, 2, 5], errors = []\<rparr>
         = Returns (Num tot,
             Node Keep [Node Dice rolls' [(''sides'', Num 6), (''value'', Num 16)], integerNode 2]
               [(''type'', Str ''highest''), (''value'', Num tot)],
             \<lparr>rng = [], errors = []\<rparr>)
       \<and> mset order = mset [0..<4]
       \<and> sorted (map (\<lambda>i. sortKey (keepDirection ''highest'')
                    ([diceRollNode 3, diceRollNode 6, diceRollNode 2, diceRollNode 5] ! i)) order)
       \<and> length rolls' = 4
       \<and> tot = sum_list (map rollValue (filter (\<lambda>d. getAttribute d ''drop'' = Str ''no'') rolls')))
   \<and> evaluate (Suc (Suc (Suc 0))) scripted
        (Node Keep [diceNode (integerNode 4) (diceSidesNode (Num 6)), integerNode 2]
           [(''type'', Str ''highest'')])
        \<lparr>rng = [3, 6, 2, 5], errors = []\<rparr>
      = Returns (Num 11,
          Node Keep
            [Node Dice [setAttribute ''drop'' (Str ''yes'') (diceRollNode 3), diceRollNode 6,
                        setAttribute ''drop'' (Str ''yes'') (diceRollNode 2), diceRollNode 5]
               [(''sides'', Num 6), (''value'', Num 16)],
             integerNode 2]
            [(''type'', Str ''highest''), (''value'', Num 11)],
          \<lparr>rng = [], errors = []\<rparr>)"
proof -
  let ?rolled = "Node Dice [diceRollNode 3, diceRollNode 6, diceRollNode 2, diceRollNode 5]
                   [(''sides'', Num 6), (''value'', Num 16)]"
  have run: "evaluate (Suc (Suc 0)) scripted (diceNode (integerNode 4) (diceSidesNode (Num 6)))
       \<lparr>rng = [3, 6, 2, 5], errors = []\<rparr>
     = Returns (Num 16, ?rolled, \<lparr>rng = [], errors = []\<rparr>)"
    by code_simp
  have dice': "ntype ?rolled = Dice" by simp
  have rolls: "list_all isRoll (children ?rolled)" by code_simp
  have cached: "truthy (getAttribute ?rolled ''value'')" by code_simp
  have modifier: "Keep = Keep \<or> Keep = Drop" by simp
  have cnt: "[integerNode 2] = [] \<and> (2::rat) = 1 \<or> [integerNode 2] = [integerNode 2]" by simp
  note inst = keep_drop_mark_all_rolls [OF run dice' rolls cached modifier cnt, of "''highest''"]
  have general: "\<exists>order rolls' tot.
         evaluate (Suc (Suc (Suc 0))) scripted
           (Node Keep [diceNode (integerNode 4) (diceSidesNode (Num 6)), integerNode 2]
              [(''type'', Str ''highest'')])
           \<lparr>rng = [3, 6, 2, 5], errors = []\<rparr>
         = Returns (Num tot,
             Node Keep [Node Dice rolls' [(''sides'', Num 6), (''value'', Num 16)], integerNode 2]
               [(''type'', Str ''highest''), (''value'', Num tot)],
             \<lparr>rng = [], errors = []\<rparr>)
       \<and> mset order = mset [0..<4]
       \<and> sorted (map (\<lambda>i. sortKey (keepDirection ''highest'')
                    ([diceRollNode 3, diceRollNode 6, diceRollNode 2, diceRollNode 5] ! i)) order)
       \<and> length rolls' = 4
       \<and> tot = sum_list (map rollValue (filter (\<lambda>d. getAttribute d ''drop'' = Str ''no'') rolls'))"
  proof -
    have n: "length [diceRollNode 3, diceRollNode 6, diceRollNode 2, diceRollNode 5] = 4" by simp
    have c: "children ?rolled = [diceRollNode 3, diceRollNode 6, diceRollNode 2, diceRollNode 5]"
      by simp
    have a: "attrs ?rolled = [(''sides'', Num 6), (''value'', Num 16)]" by simp
    from inst [unfolded c a n] show ?thesis by blast
  qed
  have concrete: "evaluate (Suc (Suc (Suc 0))) scripted
        (Node Keep [diceNode (integerNode 4) (diceSidesNode (Num 6)), integerNode 2]
           [(''type'', Str ''highest'')])
        \<lparr>rng = [3, 6, 2, 5], errors = []\<rparr>
      = Returns (Num 11,
          Node Keep
            [Node Dice [setAttribute ''drop'' (Str ''yes'') (diceRollNode 3), diceRollNode 6,
                        setAttribute ''drop'' (Str ''yes'') (diceRollNode 2), diceRollNode 5]
               [(''sides'', Num 6), (''value'', Num 16)],
             integerNode 2]
            [(''type'', Str ''highest''), (''value'', Num 11)],
          \<lparr>rng = [], errors = []\<rparr>)"
    by code_simp
  from run general concrete show ?thesis by blast
qed

section \<open>Termination\<close>

subsection \<open>A die with one side explodes for ever\<close>

text \<open>
  The only number between 1 and 1 is 1, so with a provider that honours the contract
  every roll of \<open>1d1\<close> equals the number of sides: the \<open>while\<close> loop of \<open>evaluateExplode\<close>
  rolls again on each turn, and that of \<open>evaluateReroll\<close> likewise, since the roll is 1.
\<close>

lemma contract_one_side:
  assumes "numberBetween_contract this"
  shows "fst (random this r 1 1) = 1"
proof -
  have "fst (random this r 1 1) \<in> \<int> \<and> 1 \<le> fst (random this r 1 1) \<and> fst (random this r 1 1) \<le> 1"
    using assms unfolding numberBetween_contract_def by (metis Ints_1 order_refl)
  then show ?thesis by simp
qed

lemma floor_three_halves: "\<lfloor>(3::rat) / 2\<rfloor> = 1"
  by linarith

lemma explodeWhile_one_side:
  assumes "numberBetween_contract this"
  shows "explodeWhile g this (evaluate (Suc f) this) False (Num 1) None (Num 1) (Num t) newRolls st
           = OutOfFuel"
proof (induction g arbitrary: t newRolls st)
  case 0
  show ?case by simp
next
  case (Suc g)
  have roll: "createDiceRoll this (evaluate (Suc f) this) (Inr (Num 1)) st
      = Returns (diceRollNode 1, Inr (Num 1), st\<lparr>rng := snd (random this (rng st) 1 1)\<rparr>)"
    using contract_one_side [OF assms, of "rng st"]
    by (simp add: createDiceRoll_def createDiceRollValue_def diceRollNode_def math_round_def
        floor_three_halves case_prod_beta)
  show ?case
    by (simp add: conditionHolds_def roll evaluate_diceRollNode Suc.IH)
qed

lemma explode_one_sided_die:
  assumes "numberBetween_contract this"
  shows "evaluate fuel this (Node Explode [diceNode (integerNode 1) (diceSidesNode (Num 1))] []) st
           = OutOfFuel"
proof -
  let ?e = "Node Explode [diceNode (integerNode 1) (diceSidesNode (Num 1))] []"
  let ?d = "diceNode (integerNode 1) (diceSidesNode (Num 1))"
  have dn: "?d = Node Dice [integerNode 1, diceSidesNode (Num 1)] []"
    by (simp add: diceNode_def addChild_def create_def)
  consider "fuel = 0" | "fuel = Suc 0" | "fuel = Suc (Suc 0)" | f where "fuel = Suc (Suc (Suc f))"
    by (metis not0_implies_Suc)
  then show ?thesis
  proof cases
    case 1
    then show ?thesis by simp
  next
    case 2
    then show ?thesis
      by (simp add: evaluate_Suc evaluateStep_def evaluateCase_def evaluateExplode_def
          expectChildCount_def getChildCount_def getAttribute_def)
  next
    case 3
    have "evaluate (Suc 0) this ?d st = OutOfFuel"
      unfolding dn
      by (simp add: evaluate_Suc evaluateStep_def evaluateCase_def evaluateDice_def
          expectChildCount_def getChildCount_def getAttribute_def getChild_def)
    then show ?thesis
      using 3
      by (simp add: evaluate_Suc [of "Suc 0"] evaluateStep_def evaluateCase_def evaluateExplode_def
          expectChildCount_def getChildCount_def getAttribute_def getChild_def dn)
  next
    case 4
    let ?rolled = "Node Dice [diceRollNode 1] [(''sides'', Num 1), (''value'', Num 1)]"
    have int: "evaluate (Suc f) this (integerNode 1) st = Returns (Num 1, integerNode 1, st)"
      by (rule evaluate_integerNode)
    have draw: "draws this (Suc 0) 1 1 (rng st) = ([1], snd (random this (rng st) 1 1))"
      using contract_one_side [OF assms, of "rng st"] by (simp add: case_prod_beta prod_eq_iff)
    have run: "evaluate (Suc (Suc f)) this ?d st
        = Returns (Num 1, ?rolled, st\<lparr>rng := snd (random this (rng st) 1 1)\<rparr>)"
      using evaluate_diceNode [OF int, of 1] draw by (simp add: floor_three_halves)
    have memo: "evaluate (Suc (Suc f)) this ?rolled st' = Returns (Num 1, ?rolled, st')" for st'
      using evaluate_memoized [of ?rolled "Suc f" this st'] by (simp add: getAttribute_def)
    have found: "findLeftmostDiceNode (Suc (Suc f)) (evaluate (Suc (Suc f)) this) ?e st
        = Returns (Suc 0, Node Explode [?rolled] [], st\<lparr>rng := snd (random this (rng st) 1 1)\<rparr>)"
      by (rule findLeftmostDiceNode_child [where ev = "evaluate (Suc (Suc f)) this", OF run]) simp_all
    have kept: "map_of (attrs (diceRollNode 1)) ''drop'' = Some (Str ''no'')"
      by (simp add: diceRollNode_def create_def setAttribute_def)
    show ?thesis
      unfolding 4
      by (simp add: evaluate_Suc [of "Suc (Suc f)"] evaluateStep_def evaluateCase_def
          evaluateExplode_def expectChildCount_def getChildCount_def getAttribute_def getChild_def
          found evaluateCondition_def memo evaluate_diceRollNode diceRollNode_def [symmetric]
          explodeWhile_one_side [OF assms] kept
          del: findLeftmostDiceNode.simps explodeWhile.simps)
  qed
qed

lemma rerollWhile_one_side:
  assumes "numberBetween_contract this"
  shows "rerollWhile g this ev False (Num 1) None (Num 1) st = OutOfFuel"
proof (induction g arbitrary: st)
  case 0
  show ?case by simp
next
  case (Suc g)
  have roll: "createDiceRollValue this ev (Inr (Num 1)) st
      = Returns (1, Inr (Num 1), st\<lparr>rng := snd (random this (rng st) 1 1)\<rparr>)"
    using contract_one_side [OF assms, of "rng st"]
    by (simp add: createDiceRollValue_def math_round_def floor_three_halves case_prod_beta)
  show ?case
    by (simp add: conditionHolds_def roll Suc.IH)
qed

lemma reroll_one_sided_die:
  assumes "numberBetween_contract this"
  shows "evaluate fuel this (Node Reroll [diceNode (integerNode 1) (diceSidesNode (Num 1))] []) st
           = OutOfFuel"
proof -
  let ?e = "Node Reroll [diceNode (integerNode 1) (diceSidesNode (Num 1))] []"
  let ?d = "diceNode (integerNode 1) (diceSidesNode (Num 1))"
  have dn: "?d = Node Dice [integerNode 1, diceSidesNode (Num 1)] []"
    by (simp add: diceNode_def addChild_def create_def)
  consider "fuel = 0" | "fuel = Suc 0" | "fuel = Suc (Suc 0)" | f where "fuel = Suc (Suc (Suc f))"
    by (metis not0_implies_Suc)
  then show ?thesis
  proof cases
    case 1
    then show ?thesis by simp
  next
    case 2
    then show ?thesis
      by (simp add: evaluate_Suc evaluateStep_def evaluateCase_def evaluateReroll_def
          expectChildCount_def getChildCount_def getAttribute_def)
  next
    case 3
    have "evaluate (Suc 0) this ?d st = OutOfFuel"
      unfolding dn
      by (simp add: evaluate_Suc evaluateStep_def evaluateCase_def evaluateDice_def
          expectChildCount_def getChildCount_def getAttribute_def getChild_def)
    then show ?thesis
      using 3
      by (simp add: evaluate_Suc [of "Suc 0"] evaluateStep_def evaluateCase_def evaluateReroll_def
          expectChildCount_def getChildCount_def getAttribute_def getChild_def dn)
  next
    case 4
    let ?rolled = "Node Dice [diceRollNode 1] [(''sides'', Num 1), (''value'', Num 1)]"
    have int: "evaluate (Suc f) this (integerNode 1) st = Returns (Num 1, integerNode 1, st)"
      by (rule evaluate_integerNode)
    have draw: "draws this (Suc 0) 1 1 (rng st) = ([1], snd (random this (rng st) 1 1))"
      using contract_one_side [OF assms, of "rng st"] by (simp add: case_prod_beta prod_eq_iff)
    have run: "evaluate (Suc (Suc f)) this ?d st
        = Returns (Num 1, ?rolled, st\<lparr>rng := snd (random this (rng st) 1 1)\<rparr>)"
      using evaluate_diceNode [OF int, of 1] draw by (simp add: floor_three_halves)
    have memo: "evaluate (Suc (Suc f)) this ?rolled st' = Returns (Num 1, ?rolled, st')" for st'
      using evaluate_memoized [of ?rolled "Suc f" this st'] by (simp add: getAttribute_def)
    have found: "findLeftmostDiceNode (Suc (Suc f)) (evaluate (Suc (Suc f)) this) ?e st
        = Returns (Suc 0, Node Reroll [?rolled] [], st\<lparr>rng := snd (random this (rng st) 1 1)\<rparr>)"
      by (rule findLeftmostDiceNode_child [where ev = "evaluate (Suc (Suc f)) this", OF run]) simp_all
    have kept: "map_of (attrs (diceRollNode 1)) ''drop'' = Some (Str ''no'')"
      by (simp add: diceRollNode_def create_def setAttribute_def)
    show ?thesis
      unfolding 4
      by (simp add: evaluate_Suc [of "Suc (Suc f)"] evaluateStep_def evaluateCase_def
          evaluateReroll_def expectChildCount_def getChildCount_def getAttribute_def getChild_def
          found evaluateCondition_def memo evaluate_diceRollNode diceRollNode_def [symmetric]
          rerollWhile_one_side [OF assms] kept
          del: findLeftmostDiceNode.simps rerollWhile.simps)
  qed
qed

text \<open>
  Claim C8, as stated, has \<open>evaluate\<close> terminate on every tree for every provider that
  honours the contract, the Explode and Reroll loops included. On \<open>1d1\<close> exploded the
  evaluation runs out of every amount of fuel: it never returns.
\<close>

theorem explode_one_sided_die_never_returns:
  "\<forall>fuel. evaluate fuel scripted (Node Explode [diceNode (integerNode 1) (diceSidesNode (Num 1))] [])
            \<lparr>rng = [], errors = []\<rparr> = OutOfFuel"
  using explode_one_sided_die [OF scripted_contract] by blast

subsection \<open>Trees without Explode and Reroll\<close>

lemma ends_simps [simp]:
  "ends P (Returns x) = P x" "ends P (Throws e)" "ends P Unmodelled" "\<not> ends P OutOfFuel"
  by (simp_all add: ends_def)

lemma ends_and_then:
  assumes "ends Q m" and "\<And>x. Q x \<Longrightarrow> ends P (f x)"
  shows "ends P (and_then m f)"
  using assms by (cases m) simp_all

lemma ends_mono:
  assumes "ends P m" and "\<And>x. P x \<Longrightarrow> Q x"
  shows "ends Q m"
  using assms by (cases m) simp_all

lemma ends_js [simp]:
  "ends (\<lambda>_. True) (js_round v)" "ends (\<lambda>_. True) (js_add a b)" "ends (\<lambda>_. True) (js_sub a b)"
  "ends (\<lambda>_. True) (js_mul a b)" "ends (\<lambda>_. True) (js_div a b)" "ends (\<lambda>_. True) (js_mod a b)"
  "ends (\<lambda>_. True) (js_pow a b)" "ends (\<lambda>_. True) (js_neg a)" "ends (\<lambda>_. True) (js_less a b)"
  "ends (\<lambda>_. True) (js_less_eq a b)"
  by (cases v; cases a; cases b; simp)+

lemma ends_expectChildCount:
  "ends (\<lambda>_. expected \<le> getChildCount e) (expectChildCount e expected)"
  by (simp add: expectChildCount_def)

lemma loopFreeWithin_pos: "loopFreeWithin h n \<Longrightarrow> 0 < h"
  by (cases h) simp_all

lemma loopFreeWithin_mono: "loopFreeWithin h n \<Longrightarrow> h \<le> h' \<Longrightarrow> loopFreeWithin h' n"
proof (induction h arbitrary: n h')
  case 0
  then show ?case by simp
next
  case (Suc h)
  from Suc.prems obtain g where g: "h' = Suc g" "h \<le> g" by (cases h') auto
  from Suc.prems(1) have "list_all (loopFreeWithin g) (children n)"
    using Suc.IH [OF _ g(2)] by (auto simp: list_all_iff)
  with Suc.prems(1) show ?case by (simp add: g)
qed

lemma loopFreeWithin_setAttribute [simp]:
  "loopFreeWithin h (setAttribute k v n) = loopFreeWithin h n"
  by (cases h) simp_all

lemma loopFreeWithin_setChild:
  "loopFreeWithin (Suc h) n \<Longrightarrow> loopFreeWithin h c \<Longrightarrow> loopFreeWithin (Suc h) (setChild i c n)"
  by (simp add: setChild_def list_all_update)

lemma loopFreeWithin_addChild:
  "loopFreeWithin (Suc h) n \<Longrightarrow> loopFreeWithin h c \<Longrightarrow> loopFreeWithin (Suc h) (addChild c n)"
  by (simp add: addChild_def)

lemma loopFreeWithin_clearChildren:
  "loopFreeWithin h n \<Longrightarrow> loopFreeWithin h (clearChildren n)"
  by (cases h) (simp_all add: clearChildren_def)

lemma loopFreeWithin_getChild:
  "loopFreeWithin (Suc h) n \<Longrightarrow> i < getChildCount n \<Longrightarrow> loopFreeWithin h (getChild n i)"
  by (simp add: getChild_def getChildCount_def list_all_length)

lemma loopFreeWithin_leaf:
  "loopFreeWithin (Suc 0) n \<Longrightarrow> children n = []"
  by (cases "children n") simp_all

lemma loopFreeWithin_height: "loopFree n \<Longrightarrow> loopFreeWithin (height n) n"
proof (induction n)
  case (Node t cs as)
  have "list_all (loopFreeWithin (foldr max (map height cs) 0)) cs"
    unfolding list_all_iff
  proof
    fix c assume c: "c \<in> set cs"
    with Node.prems have "loopFree c" by (simp add: list_all_iff)
    then have "loopFreeWithin (height c) c" using Node.IH c by blast
    moreover have "height c \<le> foldr max (map height cs) 0"
      using c by (induction cs) auto
    ultimately show "loopFreeWithin (foldr max (map height cs) 0) c"
      by (rule loopFreeWithin_mono)
  qed
  with Node.prems show ?case by simp
qed

lemma terminatingEvaluator_apply:
  assumes "terminatingEvaluator f ev" and "h \<le> f" and "loopFreeWithin h n"
  shows "ends (\<lambda>(v, n', st'). loopFreeWithin h n') (ev n st)"
  using assms unfolding terminatingEvaluator_def by blast

lemma terminatingEvaluator_le:
  "terminatingEvaluator f ev \<Longrightarrow> g \<le> f \<Longrightarrow> terminatingEvaluator g ev"
  unfolding terminatingEvaluator_def by (meson order_trans)

lemma ntype_setChild [simp]: "ntype (setChild i c n) = ntype n"
  by (simp add: setChild_def)

lemma getChildCount_setChild [simp]: "getChildCount (setChild i c n) = getChildCount n"
  by (simp add: setChild_def getChildCount_def)

lemma ends_evaluator:
  assumes "terminatingEvaluator f ev" and "h \<le> f" and "loopFreeWithin (Suc h) e"
    and "i < getChildCount e"
  shows "ends (\<lambda>(v, c, st'). loopFreeWithin h c) (ev (getChild e i) st)"
  using terminatingEvaluator_apply [OF assms(1,2) loopFreeWithin_getChild [OF assms(3,4)]] .

lemma ends_sumChildren:
  assumes te: "terminatingEvaluator f ev" and h: "h \<le> f"
  shows "loopFreeWithin (Suc h) e \<Longrightarrow> \<forall>x \<in> set xs. x < getChildCount e \<Longrightarrow>
     ends (\<lambda>(v, e', st'). loopFreeWithin (Suc h) e' \<and> ntype e' = ntype e
                            \<and> getChildCount e' = getChildCount e)
       (sumChildren ev xs e tot st)"
proof (induction xs arbitrary: e tot st)
  case Nil
  then show ?case by simp
next
  case (Cons x xs)
  have x: "x < getChildCount e" using Cons.prems(2) by simp
  show ?case
    apply simp
    apply (rule ends_and_then [OF ends_evaluator [OF te h Cons.prems(1) x]])
    apply clarsimp
    apply (rule ends_and_then [OF ends_js(2)])
    apply (rule ends_mono)
     apply (rule Cons.IH)
      apply (erule loopFreeWithin_setChild [OF Cons.prems(1)])
    using Cons.prems(2) apply simp
    apply clarsimp
    done
qed

lemma ends_evaluateChildren:
  assumes te: "terminatingEvaluator f ev" and h: "h \<le> f"
  shows "loopFreeWithin (Suc h) e \<Longrightarrow> \<forall>x \<in> set xs. x < getChildCount e \<Longrightarrow>
     ends (\<lambda>(e', st'). loopFreeWithin (Suc h) e' \<and> ntype e' = ntype e
                            \<and> getChildCount e' = getChildCount e)
       (evaluateChildren ev xs e st)"
proof (induction xs arbitrary: e st)
  case Nil
  then show ?case by simp
next
  case (Cons x xs)
  have x: "x < getChildCount e" using Cons.prems(2) by simp
  show ?case
    apply simp
    apply (rule ends_and_then [OF ends_evaluator [OF te h Cons.prems(1) x]])
    apply clarsimp
    apply (rule ends_mono)
     apply (rule Cons.IH)
      apply (erule loopFreeWithin_setChild [OF Cons.prems(1)])
    using Cons.prems(2) apply simp
    apply clarsimp
    done
qed

lemma ends_createDiceRoll:
  assumes te: "terminatingEvaluator f ev" and h: "h \<le> f" and sides: "loopFreeWithin h sides"
  shows "ends (\<lambda>(die, sides1, st'). loopFreeWithin (Suc 0) die
                 \<and> (\<exists>n1. sides1 = Inl n1 \<and> loopFreeWithin h n1))
           (createDiceRoll this ev (Inl sides) st)"
proof -
  have inner: "ends (\<lambda>(v, sides1, st1). \<exists>n1. sides1 = Inl n1 \<and> loopFreeWithin h n1)
      (and_then (ev sides st) (\<lambda>(v, n1, st1). Returns (v, Inl n1, st1)))"
    by (rule ends_and_then [OF terminatingEvaluator_apply [OF te h sides]]) clarsimp
  have v: "ends (\<lambda>(d, sides1, st'). \<exists>n1. sides1 = Inl n1 \<and> loopFreeWithin h n1)
             (createDiceRollValue this ev (Inl sides) st)"
    unfolding createDiceRollValue_def Let_def
    apply (simp add: sides split: prod.splits)
    apply (rule impI)
    apply (rule ends_and_then [OF inner])
    apply clarsimp
    apply (rule ends_and_then [OF ends_js(1)])
    apply (simp split: prod.splits)
    done
  show ?thesis
    unfolding createDiceRoll_def
    apply (rule ends_and_then [OF v])
    apply (clarsimp simp: create_def)
    done
qed

declare loopFreeWithin.simps(2) [simp del]

lemma ends_rollDice:
  assumes te: "terminatingEvaluator f ev" and h: "h \<le> f"
  shows "loopFreeWithin h sides \<Longrightarrow> loopFreeWithin (Suc h) e \<Longrightarrow>
     ends (\<lambda>(v, e', st'). loopFreeWithin (Suc h) e') (rollDice this ev n (Inl sides) e tot st)"
proof (induction n arbitrary: sides e tot st)
  case 0
  then show ?case by simp
next
  case (Suc n)
  have one: "Suc 0 \<le> h" using loopFreeWithin_pos [OF Suc.prems(1)] by simp
  show ?case
    apply simp
    apply (rule ends_and_then [OF ends_createDiceRoll [OF te h Suc.prems(1)]])
    apply clarsimp
    apply (rule ends_and_then)
     apply (rule terminatingEvaluator_apply [OF te h])
     apply (erule loopFreeWithin_mono [OF _ one])
    apply clarsimp
    apply (rule ends_and_then [OF ends_js(2)])
    apply (rule Suc.IH)
     apply assumption
    apply (erule loopFreeWithin_addChild [OF Suc.prems(2)])
    done
qed

lemma ends_evaluateDice:
  assumes te: "terminatingEvaluator f ev" and h: "h \<le> f" and e: "loopFreeWithin (Suc h) e"
  shows "ends (\<lambda>(v, e', st'). loopFreeWithin (Suc h) e') (evaluateDice this ev e st)"
  unfolding evaluateDice_def
  apply (rule ends_and_then [OF ends_expectChildCount])
  apply (rule ends_and_then [OF ends_evaluator [OF te h e]])
   apply simp
  apply clarsimp
  apply (rule ends_and_then [OF ends_js(1)])
  apply (rule ends_and_then [OF ends_evaluator [OF te h e]])
   apply simp
  apply clarsimp
  apply (rule ends_rollDice [OF te h])
   apply assumption
  apply (rule loopFreeWithin_clearChildren)
  apply (simp add: e)
  done

lemma ends_binaryOperation:
  assumes te: "terminatingEvaluator f ev" and h: "h \<le> f" and e: "loopFreeWithin (Suc h) e"
    and op: "\<And>a b. ends (\<lambda>_. True) (op a b)"
  shows "ends (\<lambda>(v, e', st'). loopFreeWithin (Suc h) e') (binaryOperation op ev e st)"
  unfolding binaryOperation_def
  apply (rule ends_and_then [OF ends_expectChildCount])
  apply (rule ends_and_then [OF ends_evaluator [OF te h e]])
   apply simp
  apply clarsimp
  apply (rule ends_and_then [OF ends_evaluator [OF te h e]])
   apply simp
  apply clarsimp
  apply (rule ends_and_then [OF op])
  apply (simp)
  apply (rule loopFreeWithin_setChild)
   apply (rule loopFreeWithin_setChild [OF e])
   apply assumption+
  done

lemma ends_evaluateNegate:
  assumes te: "terminatingEvaluator f ev" and h: "h \<le> f" and e: "loopFreeWithin (Suc h) e"
  shows "ends (\<lambda>(v, e', st'). loopFreeWithin (Suc h) e') (evaluateNegate ev e st)"
  unfolding evaluateNegate_def
  apply (rule ends_and_then [OF ends_expectChildCount])
  apply (rule ends_and_then [OF ends_evaluator [OF te h e]])
   apply simp
  apply clarsimp
  apply (rule ends_and_then [OF ends_js(8)])
  apply (simp)
  apply (erule loopFreeWithin_setChild [OF e])
  done

lemma ends_evaluateGroup:
  assumes te: "terminatingEvaluator f ev" and h: "h \<le> f" and e: "loopFreeWithin (Suc h) e"
  shows "ends (\<lambda>(v, e', st'). loopFreeWithin (Suc h) e') (evaluateGroup ev e st)"
  unfolding evaluateGroup_def
  by (rule ends_mono [OF ends_sumChildren [OF te h e]]) auto

lemma ends_evaluateFunction:
  assumes fs: "terminating_functions this"
    and te: "terminatingEvaluator f ev" and h: "h \<le> f" and e: "loopFreeWithin (Suc h) e"
  shows "ends (\<lambda>(v, e', st'). loopFreeWithin (Suc h) e') (evaluateFunction this ev e st)"
proof -
  have "ends (\<lambda>(v, e', st'). loopFreeWithin (Suc h) e') (g ev e st)"
    if "function_table this name = Some g" for name g
    using fs that terminatingEvaluator_le [OF te h] e unfolding terminating_functions_def by blast
  then show ?thesis
    by (simp add: evaluateFunction_def split: val.splits option.splits)
qed

lemma ends_evaluateComparison:
  assumes te: "terminatingEvaluator f ev" and h: "h \<le> f" and e: "loopFreeWithin (Suc h) e"
  shows "ends (\<lambda>(b, e', st'). loopFreeWithin (Suc h) e') (evaluateComparison ev lhs e st)"
proof -
  have op: "ends (\<lambda>_. True) (op lhs rhs)" if "comparison (ntype e) = Some op" for op rhs
    using that by (auto simp: comparison_def split: node_type.splits)
  show ?thesis
    unfolding evaluateComparison_def
    apply (rule ends_and_then [OF ends_expectChildCount])
    apply (simp split: option.splits)
    apply (intro allI impI)
    apply (rule ends_and_then [OF ends_evaluator [OF te h e]])
     apply simp
    apply clarsimp
    apply (rule ends_and_then [OF op])
     apply assumption
    apply (simp)
    apply (erule loopFreeWithin_setChild [OF e])
    done
qed

lemma loopFreeWithin_Suc_ex: "loopFreeWithin H n \<Longrightarrow> \<exists>h. H = Suc h"
  by (cases H) simp_all

lemma diceAt_within: "diceAt k h n \<Longrightarrow> loopFreeWithin h n"
  by (cases k) simp_all

lemma diceAt_nodeAt:
  "diceAt k h n \<Longrightarrow> loopFreeWithin (h - k) (nodeAt k n) \<and> ntype (nodeAt k n) = Dice"
  by (induction k arbitrary: h n) (simp, fastforce)

lemma diceAt_putAt:
  "diceAt k h n \<Longrightarrow> loopFreeWithin (h - k) d \<Longrightarrow> loopFreeWithin h (putAt k d n)"
proof (induction k arbitrary: h n)
  case 0
  then show ?case by simp
next
  case (Suc k)
  from Suc.prems(1) obtain h' where h': "h = Suc h'"
    using loopFreeWithin_Suc_ex by fastforce
  have "loopFreeWithin h' (putAt k d (getChild n 0))"
    using Suc.IH [of h' "getChild n 0"] Suc.prems by (simp add: h')
  then show ?case
    using Suc.prems(1) by (simp add: h' loopFreeWithin_setChild)
qed

lemma diceAt_setChild_1:
  assumes "diceAt (Suc k) (Suc h) n" and "loopFreeWithin h c"
  shows "diceAt (Suc k) (Suc h) (setChild (Suc 0) c n)"
  using assms
  by (simp add: loopFreeWithin_setChild) (simp add: setChild_def getChild_def)

lemma ends_findLeftmostDiceNode:
  assumes te: "terminatingEvaluator f ev"
  shows "h \<le> f \<Longrightarrow> h \<le> g \<Longrightarrow> loopFreeWithin (Suc h) e \<Longrightarrow>
     ends (\<lambda>(k, e', st'). diceAt k (Suc h) e' \<and> ntype e' = ntype e)
       (findLeftmostDiceNode g ev e st)"
proof (induction g arbitrary: h e st)
  case 0
  then have "children e = []" by (simp add: loopFreeWithin_leaf)
  with 0 show ?case by (simp add: getChildCount_def)
next
  case (Suc g)
  show ?case
  proof (cases "ntype e = Dice \<or> getChildCount e < 1")
    case True
    with Suc.prems show ?thesis by auto
  next
    case False
    then have c: "0 < getChildCount e" and nd: "ntype e \<noteq> Dice" by simp_all
    have child: "loopFreeWithin h (getChild e 0)"
      by (rule loopFreeWithin_getChild [OF Suc.prems(3) c])
    then obtain h' where h': "h = Suc h'" using loopFreeWithin_Suc_ex by blast
    have le: "h' \<le> f" "h' \<le> g" using Suc.prems(1,2) h' by simp_all
    have ne: "children e \<noteq> []" using c by (simp add: getChildCount_def)
    show ?thesis
      using False
      apply simp
      apply (rule ends_and_then [OF terminatingEvaluator_apply [OF te Suc.prems(1) child]])
      apply (clarsimp simp: h')
      apply (rule ends_and_then)
       apply (erule Suc.IH [OF le])
      apply (clarsimp simp: h' [symmetric])
      apply (rule conjI)
       apply (rule loopFreeWithin_setChild [OF Suc.prems(3)])
       apply (simp add: h' diceAt_within)
      using ne apply (simp add: setChild_def getChild_def h')
      done
  qed
qed

lemma ends_evaluateCount:
  assumes te: "terminatingEvaluator f ev" and h: "h \<le> f" and e: "diceAt (Suc k) (Suc h) e"
  shows "ends (\<lambda>(v, e', st'). diceAt (Suc k) (Suc h) e' \<and> ntype e' = ntype e)
           (evaluateCount ev e st)"
proof (cases "getChildCount e > 1")
  case True
  have w: "loopFreeWithin (Suc h) e" using e by simp
  show ?thesis
    unfolding evaluateCount_def
    apply (simp only: True if_True)
    apply (rule ends_and_then [OF ends_evaluator [OF te h w True]])
    apply (clarsimp simp del: diceAt.simps)
    apply (erule diceAt_setChild_1 [OF e])
    done
next
  case False
  then show ?thesis using e by (simp add: evaluateCount_def del: diceAt.simps)
qed

lemma ends_rollValues: "ends (\<lambda>_. True) (rollValues cs)"
proof (induction cs)
  case Nil
  show ?case by simp
next
  case (Cons c cs)
  show ?case
    by (cases "getAttribute c ''value''") (simp_all add: ends_and_then [OF Cons])
qed

lemma ends_sortRolls:
  "ends (\<lambda>rolls. \<forall>r \<in> set rolls. r < getChildCount dice) (sortRolls direction dice)"
  unfolding sortRolls_def
  by (auto intro!: ends_and_then [OF ends_rollValues])

lemma ends_getSortedDiceRolls:
  assumes te: "terminatingEvaluator f ev" and h: "h \<le> f" and dice: "loopFreeWithin (Suc h) dice"
  shows "ends (\<lambda>(rolls, tot, dice1, st'). loopFreeWithin (Suc h) dice1
                 \<and> (\<forall>r \<in> set rolls. r < getChildCount dice1))
           (getSortedDiceRolls ev dice direction st)"
  unfolding getSortedDiceRolls_def
  apply (rule ends_and_then [OF ends_sumChildren [OF te h dice]])
   apply simp
  apply clarsimp
  apply (rule ends_and_then [OF ends_sortRolls])
  apply simp
  done

lemma loopFreeWithin_markRoll:
  assumes "loopFreeWithin h dice"
  shows "loopFreeWithin h (markRoll flag r dice)"
proof -
  obtain h' where h': "h = Suc h'" using assms loopFreeWithin_Suc_ex by blast
  show ?thesis
  proof (cases "r < getChildCount dice")
    case True
    then show ?thesis
      using assms unfolding markRoll_def h'
      by (simp add: loopFreeWithin_setChild loopFreeWithin_getChild)
  next
    case False
    then have "markRoll flag r dice = dice"
      by (cases dice) (simp add: markRoll_def setChild_def getChildCount_def list_update_beyond)
    then show ?thesis using assms by simp
  qed
qed

lemma ends_keepRolls:
  "loopFreeWithin h dice \<Longrightarrow>
     ends (\<lambda>(dice', tot'). loopFreeWithin h dice') (keepRolls c rolls cnt dice tot)"
proof (induction rolls arbitrary: cnt dice tot)
  case Nil
  then show ?case by simp
next
  case (Cons r rolls)
  show ?case
    apply simp
    apply (rule ends_and_then [OF ends_js(9)])
    apply (auto intro!: ends_and_then [OF ends_js(2)] Cons.IH loopFreeWithin_markRoll Cons.prems)
    done
qed

lemma ends_dropRolls:
  "loopFreeWithin h dice \<Longrightarrow>
     ends (\<lambda>(dice', tot'). loopFreeWithin h dice') (dropRolls c rolls cnt dice tot)"
proof (induction rolls arbitrary: cnt dice tot)
  case Nil
  then show ?case by simp
next
  case (Cons r rolls)
  show ?case
    apply simp
    apply (rule ends_and_then [OF ends_js(9)])
    apply (auto intro!: ends_and_then [OF ends_js(2)] Cons.IH loopFreeWithin_markRoll Cons.prems)
    done
qed

lemma ends_getSortedDiceRolls_bound:
  assumes te: "terminatingEvaluator f ev" and H: "H \<le> Suc f" and dice: "loopFreeWithin H dice"
  shows "ends (\<lambda>(rolls, tot, dice1, st'). loopFreeWithin H dice1
                 \<and> (\<forall>r \<in> set rolls. r < getChildCount dice1))
           (getSortedDiceRolls ev dice direction st)"
proof -
  obtain h where h: "H = Suc h" using dice loopFreeWithin_Suc_ex by blast
  then have "h \<le> f" using H by simp
  from ends_getSortedDiceRolls [OF te this dice [unfolded h]] show ?thesis by (simp add: h)
qed

lemma ends_marked_rolls:
  assumes te: "terminatingEvaluator f ev" and h: "h \<le> f"
    and d: "diceAt k (Suc h) e1" and nd: "ntype e1 \<noteq> Dice"
    and mark: "\<And>H c rolls dice. loopFreeWithin H dice \<Longrightarrow>
                 ends (\<lambda>(dice', tot'). loopFreeWithin H dice') (mark c rolls dice)"
  shows "ends (\<lambda>(v, e', st'). loopFreeWithin (Suc h) e')
     (and_then (evaluateCount ev e1 st1) (\<lambda>(countTotal, e2, st2).
      and_then (ev (nodeAt k e2) st2) (\<lambda>(v, dice, st3).
      and_then (getSortedDiceRolls ev dice (sortDirection e2) st3) (\<lambda>(rolls, t, dice1, st4).
      and_then (mark countTotal rolls dice1) (\<lambda>(dice2, tot).
        Returns (tot, putAt k dice2 e2, st4))))))"
proof -
  obtain k' where k: "k = Suc k'" using d nd by (cases k) simp_all
  have le: "Suc h - k \<le> f" "Suc h - k \<le> Suc f" using h k by simp_all
  have after: "ends (\<lambda>(v, e', st'). loopFreeWithin (Suc h) e')
     (and_then (ev (nodeAt k e2) st2) (\<lambda>(v, dice, st3).
      and_then (getSortedDiceRolls ev dice (sortDirection e2) st3) (\<lambda>(rolls, t, dice1, st4).
      and_then (mark countTotal rolls dice1) (\<lambda>(dice2, tot).
        Returns (tot, putAt k dice2 e2, st4)))))"
    if e2: "diceAt k (Suc h) e2" for e2 st2 countTotal
  proof -
    have w: "loopFreeWithin (Suc h - k) (nodeAt k e2)"
      using diceAt_nodeAt [OF e2] by simp
    show ?thesis
      apply (rule ends_and_then [OF terminatingEvaluator_apply [OF te le(1) w]])
      apply clarsimp
      apply (rule ends_and_then)
       apply (erule ends_getSortedDiceRolls_bound [OF te le(2)])
      apply clarsimp
      apply (rule ends_and_then)
       apply (erule mark)
      apply clarsimp
      apply (erule diceAt_putAt [OF e2])
      done
  qed
  show ?thesis
    apply (rule ends_and_then [OF ends_evaluateCount [OF te h d [unfolded k]]])
    apply (clarsimp simp del: diceAt.simps simp add: k [symmetric])
    apply (erule after)
    done
qed

lemma ends_evaluateKeep:
  assumes te: "terminatingEvaluator f ev" and h: "h \<le> f" and e: "loopFreeWithin (Suc h) e"
    and nd: "ntype e \<noteq> Dice"
  shows "ends (\<lambda>(v, e', st'). loopFreeWithin (Suc h) e') (evaluateKeep f ev e st)"
  unfolding evaluateKeep_def
  apply (rule ends_and_then [OF ends_expectChildCount])
  apply (rule ends_and_then [OF ends_findLeftmostDiceNode [OF te h h e]])
  apply (clarsimp simp del: diceAt.simps)
  apply (rule ends_marked_rolls [OF te h, where mark = "\<lambda>c rolls dice. keepRolls c rolls 0 dice (Num 0)"])
    apply assumption
   apply (simp add: nd)
  apply (erule ends_keepRolls)
  done

lemma ends_evaluateDrop:
  assumes te: "terminatingEvaluator f ev" and h: "h \<le> f" and e: "loopFreeWithin (Suc h) e"
    and nd: "ntype e \<noteq> Dice"
  shows "ends (\<lambda>(v, e', st'). loopFreeWithin (Suc h) e') (evaluateDrop f ev e st)"
  unfolding evaluateDrop_def
  apply (rule ends_and_then [OF ends_expectChildCount])
  apply (rule ends_and_then [OF ends_findLeftmostDiceNode [OF te h h e]])
  apply (clarsimp simp del: diceAt.simps)
  apply (rule ends_marked_rolls [OF te h, where mark = "\<lambda>c rolls dice. dropRolls c rolls 0 dice (Num 0)"])
    apply assumption
   apply (simp add: nd)
  apply (erule ends_dropRolls)
  done

lemma loopFreeWithin_sorted_children:
  "loopFreeWithin (Suc h) d \<Longrightarrow> \<forall>r \<in> set rolls. r < getChildCount dice \<Longrightarrow>
   loopFreeWithin (Suc h) dice \<Longrightarrow>
     loopFreeWithin (Suc h) (foldl (\<lambda>d roll. addChild (getChild dice roll) d) d rolls)"
proof (induction rolls arbitrary: d)
  case Nil
  then show ?case by simp
next
  case (Cons r rolls)
  have "loopFreeWithin h (getChild dice r)"
    using Cons.prems by (simp add: loopFreeWithin_getChild)
  then show ?case
    using Cons.prems by (simp add: Cons.IH loopFreeWithin_addChild)
qed

lemma ends_evaluateSort:
  assumes te: "terminatingEvaluator f ev" and h: "h \<le> f" and e: "loopFreeWithin (Suc h) e"
  shows "ends (\<lambda>(v, e', st'). loopFreeWithin (Suc h) e') (evaluateSort f ev e st)"
proof -
  have after: "ends (\<lambda>(v, e', st'). loopFreeWithin (Suc h) e')
      (and_then (getSortedDiceRolls ev (nodeAt k e1) direction st1) (\<lambda>(rolls, tot, dice, st2).
         Returns (tot,
           putAt k (foldl (\<lambda>d roll. addChild (getChild dice roll) d) (clearChildren dice) rolls) e1,
           st2)))"
    if e1: "diceAt k (Suc h) e1" for k e1 st1 direction
  proof -
    have w: "loopFreeWithin (Suc h - k) (nodeAt k e1)"
      using diceAt_nodeAt [OF e1] by simp
    then obtain hd where hd: "Suc h - k = Suc hd" using loopFreeWithin_Suc_ex by blast
    have le: "Suc h - k \<le> Suc f" using h by simp
    show ?thesis
      apply (rule ends_and_then [OF ends_getSortedDiceRolls_bound [OF te le w]])
      apply clarsimp
      apply (rule diceAt_putAt [OF e1])
      apply (simp add: hd)
      apply (rule loopFreeWithin_sorted_children)
        apply (erule loopFreeWithin_clearChildren)
       apply assumption+
      done
  qed
  show ?thesis
    unfolding evaluateSort_def
    apply (rule ends_and_then [OF ends_expectChildCount])
    apply (rule ends_and_then [OF ends_findLeftmostDiceNode [OF te h h e]])
    apply (clarsimp simp del: diceAt.simps)
    apply (erule after)
    done
qed

lemma ends_evaluateComparison_bound:
  assumes te: "terminatingEvaluator f ev" and H: "H \<le> Suc f" and e: "loopFreeWithin H e"
  shows "ends (\<lambda>(b, e', st'). loopFreeWithin H e') (evaluateComparison ev lhs e st)"
proof -
  obtain h where h: "H = Suc h" using e loopFreeWithin_Suc_ex by blast
  then have "h \<le> f" using H by simp
  from ends_evaluateComparison [OF te this e [unfolded h]] show ?thesis by (simp add: h)
qed

lemma ends_criticalCondition:
  assumes te: "terminatingEvaluator f ev" and h: "h \<le> f"
    and e: "loopFreeWithin (Suc h) e" and pos: "0 < h"
  shows "ends (\<lambda>(c, st'). loopFreeWithin (if getChildCount e > 1 then h else Suc h) c)
           (criticalCondition ev e dice st)"
proof (cases "getChildCount e > 1")
  case True
  show ?thesis
    unfolding criticalCondition_def
    apply (simp only: True if_True)
    apply (rule ends_and_then [OF ends_evaluator [OF te h e True]])
    apply clarsimp
    done
next
  case False
  obtain h' where h': "h = Suc h'" using pos by (cases h) simp_all
  have made: "loopFreeWithin (Suc h) (addChild (setAttribute ''value'' v (create Integer)) (create Equal))"
    for v
    by (simp add: h' loopFreeWithin.simps(2) addChild_def create_def)
  show ?thesis
    using False unfolding criticalCondition_def
    by (auto simp: made intro!: ends_and_then [OF ends_expectChildCount])
qed

lemma ends_criticalRolls:
  assumes te: "terminatingEvaluator f ev" and H: "H \<le> Suc f" and h: "h \<le> f"
  shows "loopFreeWithin H condition \<Longrightarrow> loopFreeWithin (Suc h) dice \<Longrightarrow>
         \<forall>i \<in> set xs. i < getChildCount dice \<Longrightarrow>
     ends (\<lambda>(condition', dice', tot', st'). loopFreeWithin H condition' \<and> loopFreeWithin (Suc h) dice')
       (criticalRolls ev ty xs condition dice tot st)"
proof (induction xs arbitrary: condition dice tot st)
  case Nil
  then show ?case by simp
next
  case (Cons x xs)
  have x: "x < getChildCount dice" using Cons.prems(3) by simp
  show ?case
    apply simp
    apply (rule ends_and_then [OF ends_evaluator [OF te h Cons.prems(2) x]])
    apply clarsimp
    apply (rule ends_and_then [OF ends_evaluateComparison_bound [OF te H Cons.prems(1)]])
    apply (clarsimp split del: if_split)
    apply (rule ends_and_then [OF ends_js(2)])
    apply (rule ends_mono)
     apply (rule Cons.IH)
       apply assumption
      apply (rule loopFreeWithin_setChild [OF Cons.prems(2)])
      apply simp
    using Cons.prems(3) apply simp
    apply clarsimp
    done
qed

lemma ends_evaluateCritical:
  assumes te: "terminatingEvaluator f ev" and h: "h \<le> f" and e: "loopFreeWithin (Suc h) e"
    and nd: "ntype e \<noteq> Dice"
  shows "ends (\<lambda>(v, e', st'). loopFreeWithin (Suc h) e') (evaluateCritical f ev e st)"
proof -
  have after: "ends (\<lambda>(v, e', st'). loopFreeWithin (Suc h) e')
     (and_then (criticalCondition ev e1 (nodeAt k e1) st1) (\<lambda>(condition, st2).
      and_then (ev (nodeAt k e1) st2) (\<lambda>(v, dice, st3).
      and_then (criticalRolls ev ty [0..<getChildCount dice] condition dice (Num 0) st3)
        (\<lambda>(condition1, dice1, tot, st4).
          Returns (tot,
            putCondition (if getChildCount e1 > 1 then Some condition1 else None)
              (putAt k dice1 e1),
            st4)))))"
    if e1: "diceAt k (Suc h) e1" and nd1: "ntype e1 \<noteq> Dice" for k e1 st1 ty
  proof -
    let ?H = "if getChildCount e1 > 1 then h else Suc h"
    obtain k' where k: "k = Suc k'" using e1 nd1 by (cases k) simp_all
    have w1: "loopFreeWithin (Suc h) e1" by (rule diceAt_within [OF e1])
    have "loopFreeWithin h (getChild e1 0)"
      using e1 unfolding k by (auto dest: diceAt_within)
    then have pos: "0 < h" by (rule loopFreeWithin_pos)
    have w: "loopFreeWithin (Suc h - k) (nodeAt k e1)"
      using diceAt_nodeAt [OF e1] by simp
    then obtain hd where hd: "Suc h - k = Suc hd" using loopFreeWithin_Suc_ex by blast
    have le: "Suc h - k \<le> f" "hd \<le> f" "?H \<le> Suc f" using h k hd by auto
    show ?thesis
      apply (rule ends_and_then [OF ends_criticalCondition [OF te h w1 pos]])
      apply (clarsimp simp del: One_nat_def)
      apply (rule ends_and_then [OF terminatingEvaluator_apply [OF te le(1) w]])
      apply (clarsimp simp del: One_nat_def)
      apply (rule ends_and_then)
       apply (rule ends_criticalRolls [OF te le(3) le(2)])
         apply assumption
        apply (simp add: hd)
       apply simp
      apply (clarsimp simp add: hd [symmetric] putCondition_def simp del: One_nat_def)
      apply (auto intro!: loopFreeWithin_setChild diceAt_putAt [OF e1])
      done
  qed
  show ?thesis
    unfolding evaluateCritical_def
    apply (rule ends_and_then [OF ends_expectChildCount])
    apply (rule ends_and_then [OF ends_findLeftmostDiceNode [OF te h h e]])
    apply (clarsimp simp del: diceAt.simps One_nat_def)
    apply (erule after)
    apply (simp add: nd)
    done
qed

lemma ends_evaluateCase:
  assumes fs: "terminating_functions this"
    and te: "terminatingEvaluator f ev" and h: "h \<le> f" and e: "loopFreeWithin (Suc h) e"
  shows "ends (\<lambda>(v, e', st'). loopFreeWithin (Suc h) e') (evaluateCase f this ev e st)"
proof -
  have ne: "ntype e \<noteq> Explode" "ntype e \<noteq> Reroll"
    using e by (simp_all add: loopFreeWithin.simps(2))
  have others: "ends (\<lambda>(v, e', st'). loopFreeWithin (Suc h) e')
      (and_then (evaluateChildren ev [0..<getChildCount e] e st) (\<lambda>(e1, st1). Returns (Num 0, e1, st1)))"
    by (rule ends_and_then [OF ends_evaluateChildren [OF te h e]]) auto
  show ?thesis
    using ne e
    by (cases "ntype e")
      (simp_all add: evaluateCase_def evaluateDiceRoll_def others
        ends_binaryOperation [OF te h e] ends_evaluateNegate [OF te h e]
        ends_evaluateDice [OF te h e] ends_evaluateFunction [OF fs te h e]
        ends_evaluateGroup [OF te h e] ends_evaluateKeep [OF te h e] ends_evaluateDrop [OF te h e]
        ends_evaluateCritical [OF te h e] ends_evaluateSort [OF te h e])
qed

lemma terminatingEvaluator_evaluateStep:
  assumes fs: "terminating_functions this" and te: "terminatingEvaluator f ev"
  shows "terminatingEvaluator (Suc f) (evaluateStep f this ev)"
  unfolding terminatingEvaluator_def
proof (intro allI impI)
  fix H e st
  assume a: "H \<le> Suc f \<and> loopFreeWithin H e"
  then obtain h where H: "H = Suc h" using loopFreeWithin_Suc_ex by blast
  with a have h: "h \<le> f" and e: "loopFreeWithin (Suc h) e" by simp_all
  have c: "ends (\<lambda>(v, e', st'). loopFreeWithin (Suc h) e')
      (and_then (evaluateCase f this ev e st) (\<lambda>(v, e1, st1).
          Returns (getAttribute (setAttribute ''value'' v e1) ''value'',
                   setAttribute ''value'' v e1, st1)))"
    by (rule ends_and_then [OF ends_evaluateCase [OF fs te h e]]) auto
  show "ends (\<lambda>(v, n', st'). loopFreeWithin H n') (evaluateStep f this ev e st)"
    unfolding H evaluateStep_def using c e by (simp add: evaluateDiceRoll_def)
qed

lemma terminatingEvaluator_evaluate:
  assumes "terminating_functions this"
  shows "terminatingEvaluator f (evaluate f this)"
proof (induction f)
  case 0
  show ?case by (auto simp: terminatingEvaluator_def dest: loopFreeWithin_pos)
next
  case (Suc f)
  show ?case
    unfolding evaluate.simps(2)
    by (rule terminatingEvaluator_evaluateStep [OF assms Suc])
qed

lemma loopFreeWithin_loopFree: "loopFreeWithin h n \<Longrightarrow> loopFree n \<and> height n \<le> h"
proof (induction h arbitrary: n)
  case 0
  then show ?case by simp
next
  case (Suc h)
  obtain t cs as where n: "n = Node t cs as" by (cases n)
  from Suc.prems have cs: "\<forall>c \<in> set cs. loopFreeWithin h c" and t: "t \<noteq> Explode" "t \<noteq> Reroll"
    by (simp_all add: n loopFreeWithin.simps(2) list_all_iff)
  then have ih: "\<forall>c \<in> set cs. loopFree c \<and> height c \<le> h" using Suc.IH by blast
  have "foldr max (map height cs) 0 \<le> h"
    using ih by (induction cs) auto
  with ih t show ?case by (simp add: n list_all_iff)
qed

lemma ends_customFloor:
  assumes te: "terminatingEvaluator h ev" and e: "loopFreeWithin (Suc h) e"
  shows "ends (\<lambda>(v, e', st'). loopFreeWithin (Suc h) e') (customFloor ev e st)"
proof (cases "getChildCount e < 1")
  case True
  then show ?thesis by (simp add: customFloor_def)
next
  case False
  then have c: "0 < getChildCount e" by simp
  have fl: "ends (\<lambda>_. True) (js_floor v)" for v by (cases v) simp_all
  show ?thesis
    unfolding customFloor_def
    apply (simp only: False if_False)
    apply (rule ends_and_then [OF ends_evaluator [OF te order_refl e c]])
    apply clarsimp
    apply (rule ends_and_then [OF fl])
    apply simp
    apply (erule loopFreeWithin_setChild [OF e])
    done
qed

lemma terminating_functions_flooring: "terminating_functions flooring"
  unfolding terminating_functions_def flooring_def
  by (auto simp: ends_customFloor split: if_splits)

lemma flooring_contract: "numberBetween_contract flooring"
  using scripted_contract unfolding numberBetween_contract_def flooring_def by simp

subsection \<open>The parser builds no Explode or Reroll node\<close>

text \<open>
  \<open>parseDiceRoll\<close> stops after the sides (its modifiers are a \<open>TODO\<close>), and the operator
  maps name arithmetic and comparison nodes only, so every tree that \<open>parse\<close> returns is
  loop-free.
\<close>

lemma and_then_Returns:
  "and_then m f = Returns y \<Longrightarrow> \<exists>x. m = Returns x \<and> f x = Returns y"
  by (cases m) simp_all

lemma loopFree_iff:
  "loopFree n \<longleftrightarrow> ntype n \<noteq> Explode \<and> ntype n \<noteq> Reroll \<and> list_all loopFree (children n)"
  by (cases n) simp

lemma loopFree_create: "t \<noteq> Explode \<Longrightarrow> t \<noteq> Reroll \<Longrightarrow> loopFree (create t)"
  by (simp add: create_def)

lemma loopFree_addChild: "loopFree n \<Longrightarrow> loopFree c \<Longrightarrow> loopFree (addChild c n)"
  by (cases n) (simp add: addChild_def)

lemma loopFree_setAttribute [simp]: "loopFree (setAttribute k v n) = loopFree n"
  by (cases n) (simp add: setAttribute_def)

lemma parseInteger_loopFree: "parseInteger lexer = Returns (n, l) \<Longrightarrow> loopFree n"
  by (auto simp: parseInteger_def loopFree_create split: prod.splits dest!: and_then_Returns)

lemma parseBracketedExpression_loopFree:
  assumes pe: "\<forall>lexer n l. pe lexer = Returns (n, l) \<longrightarrow> loopFree n"
  shows "parseBracketedExpression pe lexer = Returns (n, l) \<Longrightarrow> loopFree n"
  by (auto simp: parseBracketedExpression_def split: prod.splits dest!: and_then_Returns dest: pe [rule_format])

lemma parseSimpleDiceRoll_loopFree:
  assumes pe: "\<forall>lexer n l. pe lexer = Returns (n, l) \<longrightarrow> loopFree n"
    and r: "\<And>x. rollTimes = Some x \<Longrightarrow> loopFree x"
  shows "parseSimpleDiceRoll pe rollTimes lexer = Returns (n, l) \<Longrightarrow> loopFree n"
proof -
  assume a: "parseSimpleDiceRoll pe rollTimes lexer = Returns (n, l)"
  have b: "loopFree x" if "parseBracketedExpression pe lx = Returns (x, l1)" for lx x l1
    using that by (rule parseBracketedExpression_loopFree [OF pe])
  have first: "loopFree x" if "(case rollTimes of
          Some n \<Rightarrow> Returns (n, lexer)
        | None \<Rightarrow>
            (case ttype (peekNextToken lexer) of
               IntegerToken \<Rightarrow> parseInteger lexer
             | ParenthesisOpenToken \<Rightarrow> parseBracketedExpression pe lexer
             | _ \<Rightarrow> Throws ParseError)) = Returns (x, l1)" for x l1
    using that r
    by (auto split: option.splits token_type.splits
        dest: parseInteger_loopFree b)
  from a show ?thesis
    unfolding parseSimpleDiceRoll_def Let_def
    by (auto split: if_splits dest!: and_then_Returns
        intro!: loopFree_addChild loopFree_create dest: first)
qed

lemma parseListRest_loopFree:
  assumes pe: "\<forall>lexer n l. pe lexer = Returns (n, l) \<longrightarrow> loopFree n"
  shows "loopFree rootNode \<Longrightarrow> parseListRest fuel pe rootNode lexer = Returns (n, l) \<Longrightarrow> loopFree n"
proof (induction fuel arbitrary: rootNode lexer)
  case 0
  then show ?case by simp
next
  case (Suc fuel)
  show ?case
  proof (cases "ttype (peekNextToken lexer) = CommaToken")
    case True
    with Suc.prems(2) obtain child l1 where
      c: "pe (snd (getNextToken lexer)) = Returns (child, l1)"
      and r: "parseListRest fuel pe (addChild child rootNode) l1 = Returns (n, l)"
      by (auto dest!: and_then_Returns)
    have "loopFree (addChild child rootNode)"
      using Suc.prems(1) pe [rule_format, OF c] by (rule loopFree_addChild)
    then show ?thesis using r by (rule Suc.IH)
  next
    case False
    with Suc.prems show ?thesis by simp
  qed
qed

lemma parseList_loopFree:
  assumes pe: "\<forall>lexer n l. pe lexer = Returns (n, l) \<longrightarrow> loopFree n"
    and rootNode: "loopFree rootNode"
    and run: "parseList fuel pe closing rootNode lexer = Returns (n, l)"
  shows "loopFree n"
proof -
  from run obtain l1 where
    first: "(if ttype (peekNextToken lexer) \<noteq> closing then
          and_then (pe lexer) (\<lambda>(child, lexer1).
            parseListRest fuel pe (addChild child rootNode) lexer1)
        else Returns (rootNode, lexer)) = Returns (n, l1)"
    unfolding parseList_def by (auto dest!: and_then_Returns)
  show ?thesis
  proof (cases "ttype (peekNextToken lexer) \<noteq> closing")
    case True
    with first obtain child l2 where
      c: "pe lexer = Returns (child, l2)"
      and r: "parseListRest fuel pe (addChild child rootNode) l2 = Returns (n, l1)"
      by (auto dest!: and_then_Returns)
    have "loopFree (addChild child rootNode)"
      using rootNode pe [rule_format, OF c] by (rule loopFree_addChild)
    then show ?thesis using r by (rule parseListRest_loopFree [OF pe])
  next
    case False
    with first rootNode show ?thesis by simp
  qed
qed

lemma parseFunctionCall_loopFree:
  assumes pe: "\<forall>lexer n l. pe lexer = Returns (n, l) \<longrightarrow> loopFree n"
    and run: "parseFunctionCall fuel pe lexer = Returns (n, l)"
  shows "loopFree n"
proof -
  from run obtain name l2 where
    "parseList fuel pe ParenthesisCloseToken (setAttribute ''name'' (Str name) (create Function)) l2
       = Returns (n, l)"
    unfolding parseFunctionCall_def by (auto dest!: and_then_Returns)
  then show ?thesis
    by (rule parseList_loopFree [OF pe, rotated]) (simp add: loopFree_create)
qed

lemma parseExpressionGroup_loopFree:
  assumes pe: "\<forall>lexer n l. pe lexer = Returns (n, l) \<longrightarrow> loopFree n"
    and run: "parseExpressionGroup fuel pe lexer = Returns (n, l)"
  shows "loopFree n"
  using run unfolding parseExpressionGroup_def
  by (rule parseList_loopFree [OF pe, rotated]) (simp add: loopFree_create)

lemma parseFactor_loopFree:
  assumes pe: "\<forall>lexer n l. pe lexer = Returns (n, l) \<longrightarrow> loopFree n"
    and run: "parseFactor fuel pe lexer = Returns (n, l)"
  shows "loopFree n"
proof -
  have b: "loopFree x" if "parseBracketedExpression pe lx = Returns (x, l1)" for lx x l1
    using that by (rule parseBracketedExpression_loopFree [OF pe])
  have d: "loopFree x" if "parseDiceRoll pe (Some r) lx = Returns (x, l1)" and "loopFree r"
    for r lx x l1
    using that(1) unfolding parseDiceRoll_def
    by (rule parseSimpleDiceRoll_loopFree [OF pe, rotated]) (simp add: that(2))
  have f: "loopFree n" if "parseFunctionCall fuel pe lexer = Returns (n, l)"
    using that by (rule parseFunctionCall_loopFree [OF pe])
  have g: "loopFree n" if "parseExpressionGroup fuel pe lexer = Returns (n, l)"
    using that by (rule parseExpressionGroup_loopFree [OF pe])
  from run show ?thesis
    unfolding parseFactor_def
    apply (auto split: token_type.splits if_splits dest!: and_then_Returns)
         apply (blast intro: b d f g parseInteger_loopFree)+
    done
qed

lemma parseTermRest_loopFree:
  assumes pe: "\<forall>lexer n l. pe lexer = Returns (n, l) \<longrightarrow> loopFree n"
  shows "loopFree rootNode \<Longrightarrow> parseTermRest k fuel pe rootNode lexer = Returns (n, l) \<Longrightarrow> loopFree n"
proof (induction k arbitrary: rootNode lexer)
  case 0
  then show ?case by simp
next
  case (Suc k)
  show ?case
  proof (cases "MultiOperatorMap (ttype (peekNextToken lexer))")
    case None
    with Suc.prems show ?thesis by simp
  next
    case (Some t)
    then have t: "t \<noteq> Explode" "t \<noteq> Reroll"
      by (auto simp: MultiOperatorMap_def split: token_type.splits)
    from Suc.prems(2) Some obtain factor l1 where
      c: "parseFactor fuel pe (snd (getNextToken lexer)) = Returns (factor, l1)"
      and r: "parseTermRest k fuel pe (addChild factor (addChild rootNode (create t))) l1 = Returns (n, l)"
      by (auto dest!: and_then_Returns)
    have "loopFree (addChild factor (addChild rootNode (create t)))"
      using Suc.prems(1) t parseFactor_loopFree [OF pe c]
      by (simp add: loopFree_addChild loopFree_create)
    then show ?thesis using r by (rule Suc.IH)
  qed
qed

lemma parseTerm_loopFree:
  assumes pe: "\<forall>lexer n l. pe lexer = Returns (n, l) \<longrightarrow> loopFree n"
    and run: "parseTerm fuel pe lexer = Returns (n, l)"
  shows "loopFree n"
proof -
  from run obtain rootNode l1 where
    c: "parseFactor fuel pe lexer = Returns (rootNode, l1)"
    and r: "parseTermRest fuel fuel pe rootNode l1 = Returns (n, l)"
    unfolding parseTerm_def by (auto dest!: and_then_Returns)
  from parseFactor_loopFree [OF pe c] r show ?thesis
    by (rule parseTermRest_loopFree [OF pe])
qed

lemma parseSimpleExpressionRest_loopFree:
  assumes pe: "\<forall>lexer n l. pe lexer = Returns (n, l) \<longrightarrow> loopFree n"
  shows "loopFree rootNode \<Longrightarrow> parseSimpleExpressionRest k fuel pe rootNode lexer = Returns (n, l)
           \<Longrightarrow> loopFree n"
proof (induction k arbitrary: rootNode lexer)
  case 0
  then show ?case by simp
next
  case (Suc k)
  show ?case
  proof (cases "AddOperatorMap (ttype (peekNextToken lexer))")
    case None
    with Suc.prems show ?thesis by simp
  next
    case (Some t)
    then have t: "t \<noteq> Explode" "t \<noteq> Reroll"
      by (auto simp: AddOperatorMap_def split: token_type.splits)
    from Suc.prems(2) Some obtain term_node l1 where
      c: "parseTerm fuel pe (snd (getNextToken lexer)) = Returns (term_node, l1)"
      and r: "parseSimpleExpressionRest k fuel pe (addChild term_node (addChild rootNode (create t))) l1
                = Returns (n, l)"
      by (auto dest!: and_then_Returns)
    have "loopFree (addChild term_node (addChild rootNode (create t)))"
      using Suc.prems(1) t parseTerm_loopFree [OF pe c]
      by (simp add: loopFree_addChild loopFree_create)
    then show ?thesis using r by (rule Suc.IH)
  qed
qed

lemma parseSimpleExpression_loopFree:
  assumes pe: "\<forall>lexer n l. pe lexer = Returns (n, l) \<longrightarrow> loopFree n"
    and run: "parseSimpleExpression fuel pe lexer = Returns (n, l)"
  shows "loopFree n"
proof -
  from run obtain lexer1 rootNode l2 where
    c: "parseTerm fuel pe lexer1 = Returns (rootNode, l2)"
    and r: "parseSimpleExpressionRest fuel fuel pe
             (if ttype (peekNextToken lexer) = MinusToken then addChild rootNode (create Negate)
              else rootNode) l2 = Returns (n, l)"
    unfolding parseSimpleExpression_def Let_def by (auto dest!: and_then_Returns)
  have "loopFree rootNode" by (rule parseTerm_loopFree [OF pe c])
  then have "loopFree (if ttype (peekNextToken lexer) = MinusToken
      then addChild rootNode (create Negate) else rootNode)"
    by (simp add: loopFree_addChild loopFree_create)
  then show ?thesis using r by (rule parseSimpleExpressionRest_loopFree [OF pe])
qed

lemma parseExpressionStep_loopFree:
  assumes pe: "\<forall>lexer n l. pe lexer = Returns (n, l) \<longrightarrow> loopFree n"
    and run: "parseExpressionStep fuel pe lexer = Returns (n, l)"
  shows "loopFree n"
proof -
  have s: "loopFree x" if "parseSimpleExpression fuel pe lx = Returns (x, l1)" for lx x l1
    using that by (rule parseSimpleExpression_loopFree [OF pe])
  have t: "t \<noteq> Explode \<and> t \<noteq> Reroll" if "BooleanOperatorMap tt = Some t" for tt t
    using that by (auto simp: BooleanOperatorMap_def split: token_type.splits)
  from run show ?thesis
    unfolding parseExpressionStep_def
    by (auto split: option.splits dest!: and_then_Returns t
        intro!: loopFree_addChild loopFree_create dest: s)
qed

lemma parseExpression_loopFree:
  "parseExpression fuel lexer = Returns (n, l) \<Longrightarrow> loopFree n"
proof (induction fuel arbitrary: lexer n l)
  case 0
  then show ?case by simp
next
  case (Suc fuel)
  from Suc.prems show ?case
    unfolding parseExpression.simps
    by (rule parseExpressionStep_loopFree [rotated]) (use Suc.IH in blast)
qed

lemma parse_loopFree: "parse fuel input = Returns expression \<Longrightarrow> loopFree expression"
  unfolding parse_def
  by (auto dest!: and_then_Returns dest: parseExpression_loopFree)

text \<open>
  Claim C8, amended. Every tree that the parser returns has no Explode and no Reroll
  node. On such a tree, with functions that terminate, \<open>evaluate\<close> terminates for every
  random provider: with fuel for the height of the tree it returns, throws or leaves
  the numeric model, and never runs out of fuel; the tree it returns has no Explode or
  Reroll node and is no higher. The loops of Explode and Reroll have no bound: for
  every provider that honours the contract of \<open>numberBetween\<close>, \<open>1d1\<close> exploded and \<open>1d1\<close>
  rerolled run out of every amount of fuel.
\<close>

theorem evaluate_terminates_without_loops:
  "(parse parserFuel input = Returns expression \<longrightarrow> loopFree expression)
   \<and> (terminating_functions this \<and> loopFree expression \<and> height expression \<le> fuel \<longrightarrow>
        evaluate fuel this expression st \<noteq> OutOfFuel
        \<and> (\<forall>v expression' st'. evaluate fuel this expression st = Returns (v, expression', st') \<longrightarrow>
              loopFree expression' \<and> height expression' \<le> height expression))
   \<and> (numberBetween_contract this \<longrightarrow>
        evaluate fuel this (Node Explode [diceNode (integerNode 1) (diceSidesNode (Num 1))] []) st
          = OutOfFuel
        \<and> evaluate fuel this (Node Reroll [diceNode (integerNode 1) (diceSidesNode (Num 1))] []) st
          = OutOfFuel)"
proof (intro conjI impI)
  assume "parse parserFuel input = Returns expression"
  then show "loopFree expression" by (rule parse_loopFree)
next
  assume a: "terminating_functions this \<and> loopFree expression \<and> height expression \<le> fuel"
  then have w: "loopFreeWithin (height expression) expression"
    and fs: "terminating_functions this" and le: "height expression \<le> fuel"
    by (simp_all add: loopFreeWithin_height)
  have "ends (\<lambda>(v, n', st'). loopFreeWithin (height expression) n')
          (evaluate fuel this expression st)"
    by (rule terminatingEvaluator_apply [OF terminatingEvaluator_evaluate [OF fs] le w])
  then show "evaluate fuel this expression st \<noteq> OutOfFuel"
    and "\<forall>v expression' st'. evaluate fuel this expression st = Returns (v, expression', st') \<longrightarrow>
            loopFree expression' \<and> height expression' \<le> height expression"
    by (auto simp: loopFreeWithin_loopFree)
next
  assume c: "numberBetween_contract this"
  show "evaluate fuel this (Node Explode [diceNode (integerNode 1) (diceSidesNode (Num 1))] []) st
          = OutOfFuel"
    by (rule explode_one_sided_die [OF c])
  show "evaluate fuel this (Node Reroll [diceNode (integerNode 1) (diceSidesNode (Num 1))] []) st
          = OutOfFuel"
    by (rule reroll_one_sided_die [OF c])
qed

theorem evaluate_terminates_without_loops_witness:
  "parse 5 ''floor((2+2)d6/2)''
     = Returns (Node Function
         [Node Divide
            [Node Dice [Node Add [integerNode 2, integerNode 2] [], diceSidesNode (Num 6)] [],
             integerNode 2] []]
         [(''name'', Str ''floor'')])
   \<and> evaluate 5 flooring
       (Node Function
         [Node Divide
            [Node Dice [Node Add [integerNode 2, integerNode 2] [], diceSidesNode (Num 6)] [],
             integerNode 2] []]
         [(''name'', Str ''floor'')])
       \<lparr>rng = [3, 6, 2, 5], errors = []\<rparr> \<noteq> OutOfFuel
   \<and> (case evaluate 5 flooring
         (Node Function
           [Node Divide
              [Node Dice [Node Add [integerNode 2, integerNode 2] [], diceSidesNode (Num 6)] [],
               integerNode 2] []]
           [(''name'', Str ''floor'')])
         \<lparr>rng = [3, 6, 2, 5], errors = []\<rparr>
       of Returns (v, e, st) \<Rightarrow> v = Num 8 | _ \<Rightarrow> False)
   \<and> evaluate 5 flooring (Node Explode [diceNode (integerNode 1) (diceSidesNode (Num 1))] [])
       \<lparr>rng = [3, 6, 2, 5], errors = []\<rparr> = OutOfFuel
   \<and> evaluate 5 flooring (Node Reroll [diceNode (integerNode 1) (diceSidesNode (Num 1))] [])
       \<lparr>rng = [3, 6, 2, 5], errors = []\<rparr> = OutOfFuel"
proof -
  let ?e = "Node Function
         [Node Divide
            [Node Dice [Node Add [integerNode 2, integerNode 2] [], diceSidesNode (Num 6)] [],
             integerNode 2] []]
         [(''name'', Str ''floor'')]"
  have parsed: "parse 5 ''floor((2+2)d6/2)'' = Returns ?e" by code_simp
  have high: "height ?e \<le> 5" by code_simp
  have total: "case evaluate 5 flooring ?e \<lparr>rng = [3, 6, 2, 5], errors = []\<rparr>
      of Returns (v, e, st) \<Rightarrow> v = Num 8 | _ \<Rightarrow> False"
    by code_simp
  note inst = evaluate_terminates_without_loops
    [where parserFuel = 5 and input = "''floor((2+2)d6/2)''" and expression = ?e
       and this = flooring and fuel = 5 and st = "\<lparr>rng = [3, 6, 2, 5], errors = []\<rparr>"]
  from inst parsed have free: "loopFree ?e" by blast
  from inst terminating_functions_flooring free high flooring_contract parsed total
  show ?thesis by blast
qed

end
